theory Spec2Isabelle
  imports Complex_Main
begin

section \<open>Map making in gammapy.cube.make: data model\<close>

text \<open>
  The development follows \<^verbatim>\<open>gammapy/cube/make.py\<close>: the classes \<^verbatim>\<open>MapMaker\<close>,
  \<^verbatim>\<open>MapMakerObs\<close> and \<^verbatim>\<open>MapMakerRing\<close> and the helper \<^verbatim>\<open>_check_selection\<close>.
  Exceptions are values of the type \<open>error\<close>; a function that can raise returns
  \<open>error + 'a\<close> with \<open>Inl\<close> for the exception. A message built with
  \<^verbatim>\<open>str.format\<close> is kept as the template together with its argument.
\<close>

datatype fmt_arg = StrArg string | IntArg int

datatype message = Text string | Format string fmt_arg

datatype error =
    TypeError message
  | ValueError message
  | NoOverlapError
  | PartialOverlapError
  | AttributeError
  | KeyError string
  | UnitConversionError
  | UnitTypeError

datatype log_entry = Info message

definition bind_err :: "error + 'a \<Rightarrow> ('a \<Rightarrow> error + 'b) \<Rightarrow> error + 'b" where
  "bind_err r f = (case r of Inl e \<Rightarrow> Inl e | Inr x \<Rightarrow> f x)"

subsection \<open>Geometries and maps\<close>

text \<open>
  A sky position is a pair (longitude, latitude). A geometry is the list of its spatial
  pixel centres and the list of its non-spatial axes (name and number of bins); an image
  geometry has no non-spatial axis. A coordinate is a pixel centre together with the index
  of the plane (the flattened index over the non-spatial axes) it lies in.
  \<^verbatim>\<open>get_coord\<close> enumerates the coordinates plane by plane, as the array layout
  \<^verbatim>\<open>(energy, y, x)\<close> does, and the data of a map is a list of planes parallel to it.
\<close>

type_synonym skycoord = "real \<times> real"

type_synonym coord = "skycoord \<times> nat"

record geom =
  skypix :: "skycoord list"
  axes :: "(string \<times> nat) list"

definition is_image :: "geom \<Rightarrow> bool" where
  "is_image g = (axes g = [])"

definition planes :: "geom \<Rightarrow> nat" where
  "planes g = prod_list (map snd (axes g))"

definition get_coord :: "geom \<Rightarrow> coord list list" where
  "get_coord g = map (\<lambda>e. map (\<lambda>p. (p, e)) (skypix g)) [0..<planes g]"

record wmap =
  map_geom :: geom
  map_unit :: string
  map_data :: "real list list"

text \<open>
  Python values where the source inspects the dynamic type: the geometry arguments of the
  constructor (\<^verbatim>\<open>isinstance(geom, WcsGeom)\<close>, truth value of \<^verbatim>\<open>geom_true\<close>) and
  the \<^verbatim>\<open>selection\<close> argument (\<^verbatim>\<open>None\<close>, a list, or something else).
  \<open>PyOther b\<close> is any object that is neither \<^verbatim>\<open>None\<close> nor a \<^verbatim>\<open>WcsGeom\<close>
  (a number, a string, a geometry of another class), with truth value \<open>b\<close>;
  \<open>PyNoTruth e\<close> is such an object whose truth test raises \<open>e\<close> (an array of
  several elements raises a \<^verbatim>\<open>ValueError\<close>). A geometry defines no truth test of its
  own, so it is true.
\<close>

datatype pyobj = PyNone | PyWcsGeom geom | PyOther bool | PyNoTruth error

fun truthy :: "pyobj \<Rightarrow> error + bool" where
  "truthy PyNone = Inr False"
| "truthy (PyWcsGeom g) = Inr True"
| "truthy (PyOther b) = Inr b"
| "truthy (PyNoTruth e) = Inl e"

text \<open>
  The offset handed to a constructor goes through astropy's \<^verbatim>\<open>Angle\<close>, which is outside
  this repository: an offset is either something \<^verbatim>\<open>Angle\<close> converts, with the angle
  it gives in degrees (an angle, a quantity with an angular unit, a string such as
  "2 deg"), or something it raises on, with the exception raised (a number without
  unit, a quantity in metres, a malformed string).
\<close>

datatype pyoffset = AngleLike real | NotAngle error

fun Angle :: "pyoffset \<Rightarrow> error + real" where
  "Angle (AngleLike a) = Inr a"
| "Angle (NotAngle e) = Inl e"

datatype pysel =
    SelNone
  | SelList "string list"
  | SelStr string
  | SelTuple "string list"
  | SelOther

type_synonym maps = "(string \<times> wmap) list"

text \<open>A Python dict, in insertion order: assignment replaces in place or appends.\<close>

fun dict_set :: "(string \<times> 'v) list \<Rightarrow> string \<Rightarrow> 'v \<Rightarrow> (string \<times> 'v) list" where
  "dict_set [] k v = [(k, v)]"
| "dict_set ((k', v') # d) k v =
     (if k' = k then (k', v) # d else (k', v') # dict_set d k v)"

definition dict_get :: "(string \<times> 'v) list \<Rightarrow> string \<Rightarrow> error + 'v" where
  "dict_get d k = (case map_of d k of None \<Rightarrow> Inl (KeyError k) | Some v \<Rightarrow> Inr v)"

definition dict_pop :: "(string \<times> 'v) list \<Rightarrow> string \<Rightarrow> error + ('v \<times> (string \<times> 'v) list)" where
  "dict_pop d k =
     (case map_of d k of
        None \<Rightarrow> Inl (KeyError k)
      | Some v \<Rightarrow> Inr (v, filter (\<lambda>kv. fst kv \<noteq> k) d))"

definition dict_update :: "(string \<times> 'v) list \<Rightarrow> (string \<times> 'v) list \<Rightarrow> (string \<times> 'v) list" where
  "dict_update d d' = foldl (\<lambda>acc kv. dict_set acc (fst kv) (snd kv)) d d'"

subsection \<open>Observations and the external collaborators\<close>

text \<open>
  An observation is read-only. Its event list is kept as the list of the coordinates
  (pixel centre, plane) the events fall on; the calibration tables and durations are
  opaque to this module and are only handed to the external functions.
\<close>

record observation =
  obs_id :: int
  pointing_radec :: skycoord
  fixed_pointing_info :: nat
  events :: "coord list"
  observation_live_time_duration :: real
  observation_time_duration :: real
  aeff :: nat
  bkg :: nat

datatype cutout_mode = Trim | Strict

datatype overlap = Disjoint | Partial geom | Full geom

text \<open>
  The collaborators outside this module are parameters:
  \<^item> \<open>separation\<close>: the angular separation of two sky positions;
  \<^item> \<open>overlap\<close>: how the box of a given width around a position lies in a geometry:
    outside it, partly inside (with the clipped sub-geometry) or fully inside;
  \<^item> \<open>exposure_value\<close>, \<open>exposure_unit\<close>: the exposure at a coordinate from pointing,
    live time and effective-area table, and the unit it comes in;
  \<^item> \<open>background_value\<close>, \<open>background_unit\<close>: the same for the background from the
    fixed pointing information, on-time and background table;
  \<^item> \<open>unit_factor\<close>: the factor converting the first unit into the second, \<open>None\<close>
    when the units are not convertible;
  \<^item> \<open>spectral_weight\<close>: the weight of a plane of a geometry under a spectral model
    (\<open>None\<close> is the default model).
\<close>

record ext =
  separation :: "skycoord \<Rightarrow> skycoord \<Rightarrow> real"
  overlap :: "geom \<Rightarrow> skycoord \<Rightarrow> real \<Rightarrow> overlap"
  exposure_value :: "skycoord \<Rightarrow> real \<Rightarrow> nat \<Rightarrow> coord \<Rightarrow> real"
  exposure_unit :: "nat \<Rightarrow> string"
  background_value :: "nat \<Rightarrow> real \<Rightarrow> nat \<Rightarrow> coord \<Rightarrow> real"
  background_unit :: "nat \<Rightarrow> string"
  unit_factor :: "string \<Rightarrow> string \<Rightarrow> real option"
  spectral_weight :: "nat option \<Rightarrow> geom \<Rightarrow> nat \<Rightarrow> real"

subsection \<open>The map service\<close>

definition from_geom :: "geom \<Rightarrow> string \<Rightarrow> wmap" where
  \<comment> \<open>Modelled from the spec: \<^verbatim>\<open>Map.from_geom(geometry, unit, fill=0)\<close> of gammapy.maps,
      a zero-filled map on the geometry.\<close>
  "from_geom g u = \<lparr>map_geom = g, map_unit = u, map_data = map (map (\<lambda>c. 0)) (get_coord g)\<rparr>"

definition from_geom_obj :: "pyobj \<Rightarrow> string \<Rightarrow> error + wmap" where
  \<comment> \<open>Modelled from the spec: \<^verbatim>\<open>Map.from_geom\<close> applied to a stored attribute; an object
      that is no geometry has none of the geometry's attributes.\<close>
  "from_geom_obj x u =
     (case x of PyWcsGeom g \<Rightarrow> Inr (from_geom g u) | _ \<Rightarrow> Inl AttributeError)"

definition weight_at :: "coord list \<Rightarrow> real list \<Rightarrow> coord \<Rightarrow> real" where
  "weight_at cs ws c = sum_list (map snd (filter (\<lambda>cw. fst cw = c) (zip cs ws)))"

definition fill_by_coord :: "wmap \<Rightarrow> coord list \<Rightarrow> real list \<Rightarrow> wmap" where
  \<comment> \<open>Modelled from the spec: \<^verbatim>\<open>fill_by_coord(coords, values)\<close> of gammapy.maps, additive
      accumulation: every value is added to the pixel its coordinate names; a coordinate
      outside the geometry is dropped.\<close>
  "fill_by_coord m cs ws =
     m\<lparr>map_data :=
         map2 (\<lambda>row_c row_v. map2 (\<lambda>c v. v + weight_at cs ws c) row_c row_v)
           (get_coord (map_geom m)) (map_data m)\<rparr>"

definition to_value :: "ext \<Rightarrow> wmap \<Rightarrow> string \<Rightarrow> error + real list list" where
  \<comment> \<open>\<^verbatim>\<open>map.quantity.to_value(unit)\<close>: the data converted to the unit.\<close>
  "to_value X m u =
     (case unit_factor X (map_unit m) u of
        None \<Rightarrow> Inl UnitConversionError
      | Some f \<Rightarrow> Inr (map (map (\<lambda>v. v * f)) (map_data m)))"

definition to_image :: "geom \<Rightarrow> geom" where
  "to_image g = g\<lparr>axes := []\<rparr>"

definition squash :: "geom \<Rightarrow> geom" where
  "squash g = g\<lparr>axes := map (\<lambda>a. (fst a, 1)) (axes g)\<rparr>"

definition sum_planes :: "geom \<Rightarrow> real list list \<Rightarrow> real list" where
  "sum_planes g rows = foldl (\<lambda>acc row. map2 (+) acc row) (map (\<lambda>p. 0) (skypix g)) rows"

definition sum_over_axes :: "wmap \<Rightarrow> bool \<Rightarrow> wmap" where
  \<comment> \<open>Modelled from the spec: \<^verbatim>\<open>sum_over_axes(keepdims)\<close> of gammapy.maps: the planes are
      summed pixel by pixel; with keepdims every non-spatial axis is retained with a
      single bin, without it the axes are dropped.\<close>
  "sum_over_axes m keepdims =
     m\<lparr>map_geom := (if keepdims then squash (map_geom m) else to_image (map_geom m)),
       map_data := [sum_planes (map_geom m) (map_data m)]\<rparr>"

definition slice_by_idx_energy0 :: "wmap \<Rightarrow> wmap" where
  \<comment> \<open>Modelled from the spec: \<^verbatim>\<open>slice_by_idx({"energy": 0})\<close> and
      \<^verbatim>\<open>get_image_by_idx([0])\<close> of gammapy.maps: the first plane as an image.\<close>
  "slice_by_idx_energy0 m = m\<lparr>map_geom := to_image (map_geom m), map_data := take 1 (map_data m)\<rparr>"

definition map_spectrum_weight :: "ext \<Rightarrow> wmap \<Rightarrow> nat option \<Rightarrow> wmap" where
  \<comment> \<open>Modelled from the spec: \<^verbatim>\<open>_map_spectrum_weight\<close> of gammapy.cube.exposure: every
      plane is multiplied by its weight under the spectral model.\<close>
  "map_spectrum_weight X m spectrum =
     m\<lparr>map_data :=
         map2 (\<lambda>e row. map (\<lambda>v. v * spectral_weight X spectrum (map_geom m) e) row)
           [0..<length (map_data m)] (map_data m)\<rparr>"

definition geom_cutout :: "ext \<Rightarrow> geom \<Rightarrow> skycoord \<Rightarrow> real \<Rightarrow> cutout_mode \<Rightarrow> error + geom" where
  \<comment> \<open>Modelled from the spec: \<^verbatim>\<open>cutout(position, width, mode)\<close> of the geometry service:
      no overlap raises in both modes, partial overlap is clipped in mode trim and raises
      in mode strict.\<close>
  "geom_cutout X g position width mode =
     (case overlap X g position width of
        Disjoint \<Rightarrow> Inl NoOverlapError
      | Partial g' \<Rightarrow> (case mode of Trim \<Rightarrow> Inr g' | Strict \<Rightarrow> Inl PartialOverlapError)
      | Full g' \<Rightarrow> Inr g')"

definition obj_cutout :: "ext \<Rightarrow> pyobj \<Rightarrow> skycoord \<Rightarrow> real \<Rightarrow> cutout_mode \<Rightarrow> error + geom" where
  "obj_cutout X x position width mode =
     (case x of PyWcsGeom g \<Rightarrow> geom_cutout X g position width mode | _ \<Rightarrow> Inl AttributeError)"

definition value_at :: "wmap \<Rightarrow> coord \<Rightarrow> real" where
  "value_at m c =
     (case map_of (zip (concat (get_coord (map_geom m))) (concat (map_data m))) c of
        None \<Rightarrow> 0 | Some v \<Rightarrow> v)"

definition map_cutout :: "ext \<Rightarrow> wmap \<Rightarrow> skycoord \<Rightarrow> real \<Rightarrow> cutout_mode \<Rightarrow> error + wmap" where
  \<comment> \<open>Modelled from the spec: \<^verbatim>\<open>Map.cutout\<close> of gammapy.maps: the map restricted to the
      cutout of its geometry.\<close>
  "map_cutout X m position width mode =
     bind_err (geom_cutout X (map_geom m) position width mode)
       (\<lambda>g'. Inr \<lparr>map_geom = g', map_unit = map_unit m,
                  map_data = map (map (value_at m)) (get_coord g')\<rparr>)"

section \<open>Selection validation\<close>

definition available :: "string list" where
  "available = [''counts'', ''exposure'', ''background'']"

fun first_unavailable :: "string list \<Rightarrow> string option" where
  "first_unavailable [] = None"
| "first_unavailable (name # rest) =
     (if name \<notin> set available then Some name else first_unavailable rest)"

definition check_selection :: "pysel \<Rightarrow> error + string list" where
  "check_selection selection =
     (let selection = (if selection = SelNone then SelList available else selection)
      in case selection of
           SelList names \<Rightarrow>
             (case first_unavailable names of
                Some name \<Rightarrow> Inl (ValueError (Format ''Selection not available: {!r}'' (StrArg name)))
              | None \<Rightarrow> Inr names)
         | _ \<Rightarrow> Inl (TypeError (Text ''Selection must be a list of str'')))"

section \<open>MapMaker: construction and allocation\<close>

record mapmaker =
  mk_geom :: geom
  mk_geom_true :: pyobj
  mk_offset_max :: real
  mk_exclusion_mask :: "wmap option"
  mk_maps :: "maps option"

text \<open>
  \<open>mk_maps\<close> is the attribute \<^verbatim>\<open>_maps\<close>: \<open>None\<close> while the attribute does not exist.
  The constructor runs its statements in the order of the source: the two checks of the
  reference geometry, then the truth test of \<^verbatim>\<open>geom_true\<close>, then
  \<^verbatim>\<open>Angle(offset_max)\<close>; the first that raises ends it.
\<close>

definition MapMaker_init ::
  "pyobj \<Rightarrow> pyoffset \<Rightarrow> pyobj \<Rightarrow> wmap option \<Rightarrow> error + mapmaker" where
  "MapMaker_init geom offset_max geom_true exclusion_mask =
     (case geom of
        PyWcsGeom g \<Rightarrow>
          if is_image g
          then Inl (ValueError (Text ''MapMaker only works with geom with an energy axis''))
          else bind_err (truthy geom_true) (\<lambda>given.
               bind_err (Angle offset_max) (\<lambda>angle.
                 Inr \<lparr>mk_geom = g,
                      mk_geom_true = (if given then geom_true else geom),
                      mk_offset_max = angle,
                      mk_exclusion_mask = exclusion_mask,
                      mk_maps = None\<rparr>))
      | _ \<Rightarrow> Inl (ValueError (Text ''MapMaker only works with WcsGeom'')))"

fun get_empty_maps_loop :: "'a mapmaker_scheme \<Rightarrow> string list \<Rightarrow> maps \<Rightarrow> error + maps" where
  "get_empty_maps_loop mk [] maps = Inr maps"
| "get_empty_maps_loop mk (name # rest) maps =
     (if name = ''exposure''
      then bind_err (from_geom_obj (mk_geom_true mk) ''m2 s'')
             (\<lambda>m. get_empty_maps_loop mk rest (dict_set maps name m))
      else get_empty_maps_loop mk rest (dict_set maps name (from_geom (mk_geom mk) '''')))"

definition get_empty_maps :: "'a mapmaker_scheme \<Rightarrow> string list \<Rightarrow> error + maps" where
  "get_empty_maps mk selection = get_empty_maps_loop mk selection []"

section \<open>MapMakerObs: the maps of one observation\<close>

record mapmakerobs =
  observation :: observation
  ob_geom :: geom
  ob_geom_true :: geom
  ob_offset_max :: real
  ob_exclusion_mask :: "wmap option"
  ob_maps :: maps

definition MapMakerObs_init ::
  "observation \<Rightarrow> geom \<Rightarrow> real \<Rightarrow> geom option \<Rightarrow> wmap option \<Rightarrow> mapmakerobs" where
  "MapMakerObs_init obs g offset_max geom_true exclusion_mask =
     \<lparr>observation = obs,
      ob_geom = g,
      ob_geom_true = (case geom_true of Some gt \<Rightarrow> gt | None \<Rightarrow> g),
      ob_offset_max = offset_max,
      ob_exclusion_mask = exclusion_mask,
      ob_maps = []\<rparr>"

definition fov_mask_of :: "ext \<Rightarrow> mapmakerobs \<Rightarrow> coord list list \<Rightarrow> bool list list" where
  \<comment> \<open>\<^verbatim>\<open>_fov_mask\<close>: true where the offset from the pointing reaches the maximum offset.\<close>
  "fov_mask_of X om cs =
     map (map (\<lambda>c. separation X (fst c) (pointing_radec (observation om)) \<ge> ob_offset_max om)) cs"

definition coords :: "mapmakerobs \<Rightarrow> coord list list" where
  "coords om = get_coord (ob_geom om)"

definition coords_etrue :: "mapmakerobs \<Rightarrow> coord list list" where
  "coords_etrue om = get_coord (ob_geom_true om)"

definition fov_mask :: "ext \<Rightarrow> mapmakerobs \<Rightarrow> bool list list" where
  "fov_mask X om = fov_mask_of X om (coords om)"

definition fov_mask_etrue :: "ext \<Rightarrow> mapmakerobs \<Rightarrow> bool list list" where
  "fov_mask_etrue X om = fov_mask_of X om (coords_etrue om)"

definition set_masked_zero :: "bool list list \<Rightarrow> real list list \<Rightarrow> real list list" where
  \<comment> \<open>\<^verbatim>\<open>data[..., mask] = 0\<close>\<close>
  "set_masked_zero fov rows = map2 (map2 (\<lambda>b v. if b then 0 else v)) fov rows"

definition fill_map_counts :: "wmap \<Rightarrow> coord list \<Rightarrow> wmap" where
  \<comment> \<open>Modelled from the spec: the event binning function of gammapy.cube.counts, which
      bins an event list into a counts map by coordinate, one count per event.\<close>
  "fill_map_counts counts evs = fill_by_coord counts evs (map (\<lambda>c. 1) evs)"

definition make_map_exposure_true_energy ::
  "ext \<Rightarrow> skycoord \<Rightarrow> real \<Rightarrow> nat \<Rightarrow> geom \<Rightarrow> wmap" where
  \<comment> \<open>Modelled from the spec: the exposure function of gammapy.cube.exposure, a map on the
      given geometry computed from pointing, live time and effective-area table.\<close>
  "make_map_exposure_true_energy X pointing livetime aeff_tab g =
     \<lparr>map_geom = g, map_unit = exposure_unit X aeff_tab,
      map_data = map (map (exposure_value X pointing livetime aeff_tab)) (get_coord g)\<rparr>"

definition make_map_background_irf ::
  "ext \<Rightarrow> nat \<Rightarrow> real \<Rightarrow> nat \<Rightarrow> geom \<Rightarrow> wmap" where
  \<comment> \<open>Modelled from the spec: the background function of gammapy.cube.background, a map on
      the given geometry computed from pointing information, on-time and background table.\<close>
  "make_map_background_irf X pointing ontime bkg_tab g =
     \<lparr>map_geom = g, map_unit = background_unit X bkg_tab,
      map_data = map (map (background_value X pointing ontime bkg_tab)) (get_coord g)\<rparr>"

definition make_counts :: "ext \<Rightarrow> mapmakerobs \<Rightarrow> mapmakerobs" where
  "make_counts X om =
     (let counts = from_geom (ob_geom om) '''';
          counts = fill_map_counts counts (events (observation om));
          counts = counts\<lparr>map_data := set_masked_zero (fov_mask X om) (map_data counts)\<rparr>
      in om\<lparr>ob_maps := dict_set (ob_maps om) ''counts'' counts\<rparr>)"

definition make_exposure :: "ext \<Rightarrow> mapmakerobs \<Rightarrow> mapmakerobs" where
  "make_exposure X om =
     (let exposure = make_map_exposure_true_energy X
                       (pointing_radec (observation om))
                       (observation_live_time_duration (observation om))
                       (aeff (observation om))
                       (ob_geom_true om);
          exposure = exposure\<lparr>map_data := set_masked_zero (fov_mask_etrue X om) (map_data exposure)\<rparr>
      in om\<lparr>ob_maps := dict_set (ob_maps om) ''exposure'' exposure\<rparr>)"

definition make_background :: "ext \<Rightarrow> mapmakerobs \<Rightarrow> mapmakerobs" where
  "make_background X om =
     (let background = make_map_background_irf X
                         (fixed_pointing_info (observation om))
                         (observation_time_duration (observation om))
                         (bkg (observation om))
                         (ob_geom om);
          background = background\<lparr>map_data := set_masked_zero (fov_mask X om) (map_data background)\<rparr>
      in om\<lparr>ob_maps := dict_set (ob_maps om) ''background'' background\<rparr>)"

definition make_named :: "ext \<Rightarrow> mapmakerobs \<Rightarrow> string \<Rightarrow> error + mapmakerobs" where
  \<comment> \<open>\<^verbatim>\<open>getattr(self, "_make_" + name)()\<close>\<close>
  "make_named X om name =
     (if name = ''counts'' then Inr (make_counts X om)
      else if name = ''exposure'' then Inr (make_exposure X om)
      else if name = ''background'' then Inr (make_background X om)
      else Inl AttributeError)"

fun make_loop :: "ext \<Rightarrow> mapmakerobs \<Rightarrow> string list \<Rightarrow> error + mapmakerobs" where
  "make_loop X om [] = Inr om"
| "make_loop X om (name # rest) = bind_err (make_named X om name) (\<lambda>om'. make_loop X om' rest)"

definition MapMakerObs_run :: "ext \<Rightarrow> mapmakerobs \<Rightarrow> pysel \<Rightarrow> error + maps" where
  "MapMakerObs_run X om selection =
     bind_err (check_selection selection)
       (\<lambda>sel. bind_err (make_loop X om sel) (\<lambda>om'. Inr (ob_maps om')))"

section \<open>MapMaker: stacking\<close>

definition get_obs_maker ::
  "ext \<Rightarrow> 'a mapmaker_scheme \<Rightarrow> observation \<Rightarrow> cutout_mode \<Rightarrow> error + mapmakerobs" where
  "get_obs_maker X mk obs mode =
     (let position = pointing_radec obs; width = 2 * mk_offset_max mk
      in bind_err (geom_cutout X (mk_geom mk) position width mode) (\<lambda>cutout_geom.
         bind_err (obj_cutout X (mk_geom_true mk) position width mode) (\<lambda>cutout_geom_etrue.
         bind_err (case mk_exclusion_mask mk of
                     Some ex \<Rightarrow> bind_err (map_cutout X ex position width mode) (\<lambda>c. Inr (Some c))
                   | None \<Rightarrow> Inr None) (\<lambda>cutout_exclusion.
         Inr (MapMakerObs_init obs cutout_geom (mk_offset_max mk)
                (Some cutout_geom_etrue) cutout_exclusion)))))"

definition log_processing :: "observation \<Rightarrow> log_entry" where
  "log_processing obs =
     Info (Format ''Processing observation: OBS_ID = {}'' (IntArg (obs_id obs)))"

definition log_no_overlap :: "observation \<Rightarrow> log_entry" where
  "log_no_overlap obs =
     Info (Format ''Skipping observation {}, no overlap with map.'' (IntArg (obs_id obs)))"

definition log_partial_overlap :: "observation \<Rightarrow> log_entry" where
  "log_partial_overlap obs =
     Info (Format ''Skipping observation {}, partial overlap with map.'' (IntArg (obs_id obs)))"

fun fill_selected ::
  "ext \<Rightarrow> mapmakerobs \<Rightarrow> string list \<Rightarrow> maps \<Rightarrow> maps \<Rightarrow> error + maps" where
  "fill_selected X om [] maps_obs maps = Inr maps"
| "fill_selected X om (name # rest) maps_obs maps =
     bind_err (dict_get maps_obs name) (\<lambda>mo.
     bind_err (dict_get maps name) (\<lambda>m.
     bind_err (to_value X mo (map_unit m)) (\<lambda>data.
       fill_selected X om rest maps_obs
         (dict_set maps name
            (fill_by_coord m
               (concat (if name = ''exposure'' then coords_etrue om else coords om))
               (concat data))))))"

fun MapMaker_run_loop ::
  "ext \<Rightarrow> 'a mapmaker_scheme \<Rightarrow> string list \<Rightarrow> observation list \<Rightarrow> maps \<Rightarrow> log_entry list
     \<Rightarrow> error + (maps \<times> log_entry list)" where
  "MapMaker_run_loop X mk selection [] maps lg = Inr (maps, lg)"
| "MapMaker_run_loop X mk selection (obs # rest) maps lg =
     (let lg = lg @ [log_processing obs]
      in case get_obs_maker X mk obs Trim of
           Inl e \<Rightarrow>
             if e = NoOverlapError
             then MapMaker_run_loop X mk selection rest maps
                    (lg @ [log_no_overlap obs])
             else Inl e
         | Inr obs_maker \<Rightarrow>
             bind_err (MapMakerObs_run X obs_maker (SelList selection)) (\<lambda>maps_obs.
             bind_err (fill_selected X obs_maker selection maps_obs maps) (\<lambda>maps'.
               MapMaker_run_loop X mk selection rest maps' lg)))"

definition MapMaker_run ::
  "ext \<Rightarrow> mapmaker \<Rightarrow> observation list \<Rightarrow> pysel
     \<Rightarrow> error + (maps \<times> mapmaker \<times> log_entry list)" where
  "MapMaker_run X mk observations selection =
     bind_err (check_selection selection) (\<lambda>sel.
     bind_err (get_empty_maps mk sel) (\<lambda>maps0.
     bind_err (MapMaker_run_loop X mk sel observations maps0 []) (\<lambda>r.
       Inr (fst r, mk\<lparr>mk_maps := Some (fst r)\<rparr>, snd r))))"

definition sum_one :: "ext \<Rightarrow> nat option \<Rightarrow> bool \<Rightarrow> string \<Rightarrow> wmap \<Rightarrow> wmap" where
  "sum_one X spectrum keepdims name m =
     (let m = (if name = ''exposure'' then map_spectrum_weight X m spectrum else m);
          m = (if name = ''exclusion'' then slice_by_idx_energy0 m else m)
      in sum_over_axes m keepdims)"

definition maps_sum_over_axes :: "ext \<Rightarrow> maps \<Rightarrow> nat option \<Rightarrow> bool \<Rightarrow> maps" where
  "maps_sum_over_axes X maps spectrum keepdims =
     foldl (\<lambda>images item. dict_set images (fst item)
                             (sum_one X spectrum keepdims (fst item) (snd item))) [] maps"

definition MapMaker_run_images ::
  "ext \<Rightarrow> mapmaker \<Rightarrow> observation list option \<Rightarrow> nat option \<Rightarrow> bool
     \<Rightarrow> error + (maps \<times> mapmaker \<times> log_entry list)" where
  "MapMaker_run_images X mk observations spectrum keepdims =
     (case mk_maps mk of
        None \<Rightarrow>
          (case observations of
             None \<Rightarrow> Inl (ValueError (Text ''Requires observations...''))
           | Some obs \<Rightarrow>
               bind_err (MapMaker_run X mk obs SelNone) (\<lambda>r.
                 case r of (maps, mk', lg) \<Rightarrow>
                   Inr (maps_sum_over_axes X maps spectrum keepdims, mk', lg)))
      | Some maps \<Rightarrow> Inr (maps_sum_over_axes X maps spectrum keepdims, mk, []))"

section \<open>MapMakerRing\<close>

type_synonym obs_maps = "(string \<times> wmap option) list"

record mapmakerring = mapmaker +
  background_estimator :: "(obs_maps \<Rightarrow> obs_maps) option"

text \<open>
  The background estimator is an object with a method \<^verbatim>\<open>run\<close> from a map set to a map
  set, or \<^verbatim>\<open>None\<close> (the default). The map set handed to it holds the exclusion-mask
  cutout under the key "exclusion", which is \<^verbatim>\<open>None\<close> when no mask was configured.
\<close>

definition MapMakerRing_init ::
  "pyobj \<Rightarrow> pyoffset \<Rightarrow> wmap option \<Rightarrow> (obs_maps \<Rightarrow> obs_maps) option
     \<Rightarrow> error + mapmakerring" where
  "MapMakerRing_init geom offset_max exclusion_mask estimator =
     bind_err (MapMaker_init geom offset_max PyNone exclusion_mask)
       (\<lambda>mk. Inr (mapmaker.extend mk (mapmakerring.fields estimator)))"

fun obs_sum_over_axes ::
  "ext \<Rightarrow> obs_maps \<Rightarrow> nat option \<Rightarrow> bool \<Rightarrow> obs_maps \<Rightarrow> error + obs_maps" where
  "obs_sum_over_axes X [] spectrum keepdims images = Inr images"
| "obs_sum_over_axes X ((name, v) # rest) spectrum keepdims images =
     (case v of
        None \<Rightarrow> Inl AttributeError
      | Some m \<Rightarrow> obs_sum_over_axes X rest spectrum keepdims
                    (dict_set images name (Some (sum_one X spectrum keepdims name m))))"

fun paste_selected :: "ext \<Rightarrow> string list \<Rightarrow> obs_maps \<Rightarrow> maps \<Rightarrow> error + maps" where
  "paste_selected X [] maps_obs maps = Inr maps"
| "paste_selected X (name # rest) maps_obs maps =
     bind_err (dict_get maps_obs name) (\<lambda>v.
     bind_err (case v of None \<Rightarrow> Inl AttributeError | Some mo \<Rightarrow> Inr mo) (\<lambda>mo.
     bind_err (dict_get maps name) (\<lambda>m.
     bind_err (to_value X mo (map_unit m)) (\<lambda>data.
       paste_selected X rest maps_obs
         (dict_set maps name
            (fill_by_coord m (concat (get_coord (map_geom mo))) (concat data)))))))"

definition ring_obs_maps ::
  "ext \<Rightarrow> mapmakerring \<Rightarrow> mapmakerobs \<Rightarrow> bool \<Rightarrow> nat option \<Rightarrow> bool \<Rightarrow> error + obs_maps" where
  \<comment> \<open>The body of the loop of \<^verbatim>\<open>_run\<close> between the cutout and the pasting.\<close>
  "ring_obs_maps X rk obs_maker sum_over_axis spectrum keepdims =
     bind_err (MapMakerObs_run X obs_maker SelNone) (\<lambda>made.
     let maps_obs = dict_set (map (\<lambda>kv. (fst kv, Some (snd kv))) made) ''exclusion''
                      (ob_exclusion_mask obs_maker)
     in bind_err
          (if sum_over_axis
           then bind_err (obs_sum_over_axes X maps_obs spectrum keepdims []) (\<lambda>images.
                  case ob_exclusion_mask obs_maker of
                    None \<Rightarrow> Inl AttributeError
                  | Some ex \<Rightarrow> Inr (dict_set images ''exclusion'' (Some (slice_by_idx_energy0 ex))))
           else Inr maps_obs) (\<lambda>maps_obs.
        bind_err (case background_estimator rk of
                    None \<Rightarrow> Inl AttributeError
                  | Some estimate \<Rightarrow> Inr (estimate maps_obs)) (\<lambda>maps_obs_bkg.
        let maps_obs = dict_update maps_obs maps_obs_bkg
        in bind_err (dict_pop maps_obs ''background'') (\<lambda>p.
           let maps_obs = dict_set (snd p) ''exposure_on'' (fst p)
           in bind_err (dict_pop maps_obs ''counts'') (\<lambda>q.
              Inr (dict_set (snd q) ''on'' (fst q)))))))"

definition ring_selection :: "string list" where
  "ring_selection = [''on'', ''exposure_on'', ''off'', ''exposure_off'']"

fun MapMakerRing_run_loop ::
  "ext \<Rightarrow> mapmakerring \<Rightarrow> bool \<Rightarrow> nat option \<Rightarrow> bool \<Rightarrow> observation list \<Rightarrow> maps
     \<Rightarrow> log_entry list \<Rightarrow> error + (maps \<times> log_entry list)" where
  "MapMakerRing_run_loop X rk sum_over_axis spectrum keepdims [] maps lg = Inr (maps, lg)"
| "MapMakerRing_run_loop X rk sum_over_axis spectrum keepdims (obs # rest) maps lg =
     (case get_obs_maker X rk obs Strict of
        Inl e \<Rightarrow>
          if e = NoOverlapError
          then MapMakerRing_run_loop X rk sum_over_axis spectrum keepdims rest maps
                 (lg @ [log_no_overlap obs])
          else if e = PartialOverlapError
          then MapMakerRing_run_loop X rk sum_over_axis spectrum keepdims rest maps
                 (lg @ [log_partial_overlap obs])
          else Inl e
      | Inr obs_maker \<Rightarrow>
          bind_err (ring_obs_maps X rk obs_maker sum_over_axis spectrum keepdims) (\<lambda>maps_obs.
          bind_err (paste_selected X ring_selection maps_obs maps) (\<lambda>maps'.
            MapMakerRing_run_loop X rk sum_over_axis spectrum keepdims rest maps' lg)))"

definition MapMakerRing__run ::
  "ext \<Rightarrow> mapmakerring \<Rightarrow> observation list \<Rightarrow> bool \<Rightarrow> nat option \<Rightarrow> bool
     \<Rightarrow> error + (maps \<times> mapmakerring \<times> log_entry list)" where
  "MapMakerRing__run X rk observations sum_over_axis spectrum keepdims =
     (let selection = ring_selection
      in bind_err (get_empty_maps rk selection) (\<lambda>maps.
         let maps = (if sum_over_axis then maps_sum_over_axes X maps spectrum keepdims else maps)
         in bind_err (MapMakerRing_run_loop X rk sum_over_axis spectrum keepdims
                        observations maps []) (\<lambda>r.
              Inr (fst r, rk\<lparr>mk_maps := Some (fst r)\<rparr>, snd r))))"

definition MapMakerRing_run_images ::
  "ext \<Rightarrow> mapmakerring \<Rightarrow> observation list \<Rightarrow> nat option \<Rightarrow> bool
     \<Rightarrow> error + (maps \<times> mapmakerring \<times> log_entry list)" where
  "MapMakerRing_run_images X rk observations spectrum keepdims =
     MapMakerRing__run X rk observations True spectrum keepdims"

definition MapMakerRing_run ::
  "ext \<Rightarrow> mapmakerring \<Rightarrow> observation list
     \<Rightarrow> error + (maps \<times> mapmakerring \<times> log_entry list)" where
  "MapMakerRing_run X rk observations =
     MapMakerRing__run X rk observations False None False"

section \<open>Notions used in the statements\<close>

text \<open>
  \<open>add_fn f m\<close> adds \<open>f c\<close> to the pixel of every coordinate \<open>c\<close> of the map;
  \<open>shift F\<close> does so in every map of a map set, with \<open>F\<close> of the key.
  \<open>scale_map k m\<close> multiplies every value by \<open>k\<close>.
\<close>

definition add_fn :: "(coord \<Rightarrow> real) \<Rightarrow> wmap \<Rightarrow> wmap" where
  "add_fn f m =
     m\<lparr>map_data :=
         map2 (\<lambda>row_c row_v. map2 (\<lambda>c v. v + f c) row_c row_v)
           (get_coord (map_geom m)) (map_data m)\<rparr>"

definition shift :: "(string \<Rightarrow> coord \<Rightarrow> real) \<Rightarrow> maps \<Rightarrow> maps" where
  "shift F ms = map (\<lambda>kv. (fst kv, add_fn (F (fst kv)) (snd kv))) ms"

definition scale_map :: "real \<Rightarrow> wmap \<Rightarrow> wmap" where
  "scale_map k m = m\<lparr>map_data := map (map (\<lambda>v. k * v)) (map_data m)\<rparr>"

text \<open>
  The spatial footprint of an observation in a map maker: the pixel centres of its
  cutouts (none when the observation is skipped or its cutout fails).
\<close>

definition footprint :: "ext \<Rightarrow> 'a mapmaker_scheme \<Rightarrow> observation \<Rightarrow> skycoord list" where
  "footprint X mk obs =
     (case get_obs_maker X mk obs Trim of
        Inl e \<Rightarrow> []
      | Inr om \<Rightarrow> skypix (ob_geom om) @ skypix (ob_geom_true om))"

text \<open>
  The pixel-wise union of two maps on the same geometry, the first with the given
  footprint: the value of the first map inside the footprint, of the second outside.
\<close>

definition union_map :: "skycoord list \<Rightarrow> wmap \<Rightarrow> wmap \<Rightarrow> wmap" where
  "union_map fp ma mb =
     ma\<lparr>map_data :=
          map2 (\<lambda>row_c row_v. map2 (\<lambda>c v. if fst c \<in> set fp then fst v else snd v) row_c row_v)
            (get_coord (map_geom ma)) (map2 zip (map_data ma) (map_data mb))\<rparr>"

definition union_maps :: "skycoord list \<Rightarrow> maps \<Rightarrow> maps \<Rightarrow> maps" where
  "union_maps fp msa msb = map2 (\<lambda>a b. (fst a, union_map fp (snd a) (snd b))) msa msb"

text \<open>
  A map is zero outside the field of view of an observation maker when its data has the
  shape of the coordinates and is 0 wherever the offset reaches the maximum offset.
\<close>

definition fov_zeroed :: "ext \<Rightarrow> mapmakerobs \<Rightarrow> coord list list \<Rightarrow> wmap \<Rightarrow> bool" where
  "fov_zeroed X om cs m =
     list_all2 (list_all2 (\<lambda>c v.
        separation X (fst c) (pointing_radec (observation om)) \<ge> ob_offset_max om \<longrightarrow> v = 0))
       cs (map_data m)"

text \<open>
  What one occurrence of a name in the selection adds to the stacked map of that name for
  one observation: the weight that \<^verbatim>\<open>fill_by_coord\<close> deposits at a coordinate.
\<close>

definition contribution :: "ext \<Rightarrow> mapmakerobs \<Rightarrow> maps \<Rightarrow> maps \<Rightarrow> string \<Rightarrow> coord \<Rightarrow> real" where
  "contribution X om maps_obs ms name c =
     (case dict_get maps_obs name of
        Inl e \<Rightarrow> 0
      | Inr mo \<Rightarrow>
          (case dict_get ms name of
             Inl e \<Rightarrow> 0
           | Inr m \<Rightarrow>
               (case to_value X mo (map_unit m) of
                  Inl e \<Rightarrow> 0
                | Inr d \<Rightarrow>
                    weight_at (concat (if name = ''exposure'' then coords_etrue om else coords om))
                      (concat d) c)))"

definition wf_map :: "wmap \<Rightarrow> bool" where
  "wf_map m \<longleftrightarrow> map length (map_data m) = map length (get_coord (map_geom m))"

definition wf_maps :: "maps \<Rightarrow> bool" where
  "wf_maps ms \<longleftrightarrow> distinct (map fst ms) \<and> list_all (\<lambda>kv. wf_map (snd kv)) ms"

section \<open>A concrete pipeline\<close>

text \<open>
  A strip of five pixels with two energy bins, an offset of one pixel, and three
  observations: one fully inside the strip, one at its edge (its cutout is clipped) and
  one far outside it. The separation is the Manhattan distance; the exposure grows with
  the energy bin; units convert only to themselves.
\<close>

definition g0 :: geom where
  "g0 = \<lparr>skypix = [(0, 0), (1, 0), (2, 0), (3, 0), (4, 0)], axes = [(''energy'', 2)]\<rparr>"

definition X0 :: ext where
  "X0 = \<lparr>separation = (\<lambda>p q. \<bar>fst p - fst q\<bar> + \<bar>snd p - snd q\<bar>),
         overlap = (\<lambda>g pos w.
            let inside = filter (\<lambda>p. \<bar>fst p - fst pos\<bar> \<le> w / 2 \<and> \<bar>snd p - snd pos\<bar> \<le> w / 2)
                           (skypix g)
            in if inside = [] then Disjoint
               else if fst (hd (skypix g)) \<le> fst pos - w / 2
                       \<and> fst pos + w / 2 \<le> fst (last (skypix g))
               then Full (g\<lparr>skypix := inside\<rparr>)
               else Partial (g\<lparr>skypix := inside\<rparr>)),
         exposure_value = (\<lambda>pointing livetime tab c. livetime * (1 + real (snd c))),
         exposure_unit = (\<lambda>tab. ''m2 s''),
         background_value = (\<lambda>pointing ontime tab c. ontime),
         background_unit = (\<lambda>tab. ''''),
         unit_factor = (\<lambda>u v. if u = v then Some 1 else None),
         spectral_weight = (\<lambda>spectrum g e. if e = 0 then 1 / 4 else 3 / 4)\<rparr>"

definition obsA :: observation where
  "obsA = \<lparr>obs_id = 1, pointing_radec = (1, 0), fixed_pointing_info = 0,
           events = [((1, 0), 0), ((1, 0), 0), ((1, 0), 1), ((0, 0), 0)],
           observation_live_time_duration = 10, observation_time_duration = 12,
           aeff = 0, bkg = 0\<rparr>"

definition obsB :: observation where
  "obsB = \<lparr>obs_id = 2, pointing_radec = (4, 0), fixed_pointing_info = 0,
           events = [((4, 0), 1)],
           observation_live_time_duration = 20, observation_time_duration = 24,
           aeff = 0, bkg = 0\<rparr>"

definition obsC :: observation where
  "obsC = \<lparr>obs_id = 3, pointing_radec = (10, 0), fixed_pointing_info = 0,
           events = [],
           observation_live_time_duration = 30, observation_time_duration = 36,
           aeff = 0, bkg = 0\<rparr>"

definition mk0 :: mapmaker where
  "mk0 = \<lparr>mk_geom = g0, mk_geom_true = PyWcsGeom g0, mk_offset_max = 1,
          mk_exclusion_mask = None, mk_maps = None\<rparr>"

definition maA :: maps where
  "maA = [(''counts'', \<lparr>map_geom = g0, map_unit = '''',
                        map_data = [[0, 2, 0, 0, 0], [0, 1, 0, 0, 0]]\<rparr>),
          (''exposure'', \<lparr>map_geom = g0, map_unit = ''m2 s'',
                          map_data = [[0, 10, 0, 0, 0], [0, 20, 0, 0, 0]]\<rparr>),
          (''background'', \<lparr>map_geom = g0, map_unit = '''',
                            map_data = [[0, 12, 0, 0, 0], [0, 12, 0, 0, 0]]\<rparr>)]"

definition maB :: maps where
  "maB = [(''counts'', \<lparr>map_geom = g0, map_unit = '''',
                        map_data = [[0, 0, 0, 0, 0], [0, 0, 0, 0, 1]]\<rparr>),
          (''exposure'', \<lparr>map_geom = g0, map_unit = ''m2 s'',
                          map_data = [[0, 0, 0, 0, 20], [0, 0, 0, 0, 40]]\<rparr>),
          (''background'', \<lparr>map_geom = g0, map_unit = '''',
                            map_data = [[0, 0, 0, 0, 24], [0, 0, 0, 0, 24]]\<rparr>)]"

text \<open>
  A ring maker on the same strip, with an estimator that returns the counts as the off
  map and the background as the off exposure, and the map set a ring run allocates.
\<close>

definition estimator0 :: "obs_maps \<Rightarrow> obs_maps" where
  "estimator0 d =
     (case (map_of d ''counts'', map_of d ''background'') of
        (Some c, Some b) \<Rightarrow> [(''off'', c), (''exposure_off'', b)]
      | _ \<Rightarrow> [])"

definition rk0 :: mapmakerring where
  "rk0 = \<lparr>mk_geom = g0, mk_geom_true = PyWcsGeom g0, mk_offset_max = 1,
          mk_exclusion_mask = None, mk_maps = None,
          background_estimator = Some estimator0\<rparr>"

definition zero0 :: wmap where
  "zero0 = \<lparr>map_geom = g0, map_unit = '''',
            map_data = [[0, 0, 0, 0, 0], [0, 0, 0, 0, 0]]\<rparr>"

definition ring_zero_maps :: maps where
  "ring_zero_maps = [(''on'', zero0), (''exposure_on'', zero0), (''off'', zero0),
                     (''exposure_off'', zero0)]"

text \<open>
  The maps of the first observation on the whole strip: only the pixel of the pointing
  is closer than the maximum offset.
\<close>

definition counts_A :: wmap where
  "counts_A = \<lparr>map_geom = g0, map_unit = '''',
               map_data = [[0, 2, 0, 0, 0], [0, 1, 0, 0, 0]]\<rparr>"

definition obs_maps_A :: maps where
  "obs_maps_A =
     [(''counts'', counts_A),
      (''exposure'', \<lparr>map_geom = g0, map_unit = ''m2 s'',
                      map_data = [[0, 10, 0, 0, 0], [0, 20, 0, 0, 0]]\<rparr>),
      (''background'', \<lparr>map_geom = g0, map_unit = '''',
                        map_data = [[0, 12, 0, 0, 0], [0, 12, 0, 0, 0]]\<rparr>)]"

text \<open>The stack of the first two observations when counts are selected twice.\<close>

definition maps_dup :: maps where
  "maps_dup =
     [(''counts'', \<lparr>map_geom = g0, map_unit = '''',
                    map_data = [[0, 4, 0, 0, 0], [0, 2, 0, 0, 2]]\<rparr>),
      (''exposure'', \<lparr>map_geom = g0, map_unit = ''m2 s'',
                      map_data = [[0, 10, 0, 0, 20], [0, 20, 0, 0, 40]]\<rparr>)]"


text \<open>
  The same pipeline with an exposure function that answers in \<^verbatim>\<open>cm2 s\<close>, which
  converts to the \<^verbatim>\<open>m2 s\<close> of the stacked exposure by the factor 1/10000: the cutout
  of the first observation, its exposure map as the observation maker returns it, and
  the stacked exposure.
\<close>

definition X1 :: ext where
  "X1 = X0\<lparr>exposure_unit := (\<lambda>tab. ''cm2 s''),
           unit_factor := (\<lambda>u v. if u = v then Some 1
                                  else if u = ''cm2 s'' \<and> v = ''m2 s'' then Some (1 / 10000)
                                  else None)\<rparr>"

definition cutA :: geom where
  "cutA = \<lparr>skypix = [(0, 0), (1, 0), (2, 0)], axes = [(''energy'', 2)]\<rparr>"

definition omA :: mapmakerobs where
  "omA = MapMakerObs_init obsA cutA 1 (Some cutA) None"

definition obs_exposure_cm :: wmap where
  "obs_exposure_cm = \<lparr>map_geom = cutA, map_unit = ''cm2 s'',
                      map_data = [[0, 10, 0], [0, 20, 0]]\<rparr>"

definition stacked_exposure_m :: wmap where
  "stacked_exposure_m = \<lparr>map_geom = g0, map_unit = ''m2 s'',
                         map_data = [[0, 1 / 1000, 0, 0, 0], [0, 1 / 500, 0, 0, 0]]\<rparr>"

text \<open>
  Arguments the constructor cannot digest: an array of several elements, whose truth
  test raises, and a bare number, which \<^verbatim>\<open>Angle\<close> rejects for want of a unit.
\<close>

definition array_like :: pyobj where
  "array_like = PyNoTruth (ValueError (Text ''The truth value of an array with more than one element is ambiguous. Use a.any() or a.all()''))"

definition bare_number :: pyoffset where
  "bare_number = NotAngle UnitTypeError"
section \<open>Auxiliary facts\<close>

lemma first_unavailable_None: "first_unavailable names = None \<longleftrightarrow> set names \<subseteq> set available"
  by (induction names) auto

lemma first_unavailable_Some:
  "first_unavailable names = Some n \<Longrightarrow> n \<in> set names \<and> n \<notin> set available"
  by (induction names) (auto split: if_splits)

lemma first_unavailable_first:
  "first_unavailable names = Some n \<Longrightarrow>
     \<exists>pre post. names = pre @ n # post \<and> set pre \<subseteq> set available \<and> n \<notin> set available"
proof (induction names)
  case Nil
  then show ?case by simp
next
  case (Cons a names)
  show ?case
  proof (cases "a \<in> set available")
    case True
    with Cons obtain pre post where "names = pre @ n # post" "set pre \<subseteq> set available" "n \<notin> set available"
      by auto
    then have "a # names = (a # pre) @ n # post \<and> set (a # pre) \<subseteq> set available \<and> n \<notin> set available"
      using True by simp
    then show ?thesis by blast
  next
    case False
    with Cons.prems have "n = a" by simp
    then have "a # names = [] @ n # names \<and> set [] \<subseteq> set available \<and> n \<notin> set available"
      using False by simp
    then show ?thesis by blast
  qed
qed

lemma check_selection_list_ok:
  "set names \<subseteq> set available \<Longrightarrow> check_selection (SelList names) = Inr names"
  using first_unavailable_None[of names] by (simp add: check_selection_def)

lemma bind_err_Inl [simp]: "bind_err (Inl e) f = Inl e"
  by (simp add: bind_err_def)

lemma bind_err_Inr [simp]: "bind_err (Inr x) f = f x"
  by (simp add: bind_err_def)

lemma bind_err_eq_Inr: "bind_err r f = Inr y \<longleftrightarrow> (\<exists>x. r = Inr x \<and> f x = Inr y)"
  by (cases r) auto

lemma bind_err_eq_Inl: "bind_err r f = Inl e \<longleftrightarrow> r = Inl e \<or> (\<exists>x. r = Inr x \<and> f x = Inl e)"
  by (cases r) auto

lemma map_of_dict_set: "map_of (dict_set d k v) k' = (if k' = k then Some v else map_of d k')"
  by (induction d) auto

lemma map2_map_same: "map2 f xs (map g xs) = map (\<lambda>x. f x (g x)) xs"
  by (induction xs) auto

lemma map2_nested_same:
  "map2 (\<lambda>r_c r_v. map2 g r_c r_v) css (map (map h) css) = map (map (\<lambda>c. g c (h c))) css"
  by (induction css) (auto simp: map2_map_same)

lemma list_all2_map_same: "(\<And>c. R c (h c)) \<Longrightarrow> list_all2 (list_all2 R) css (map (map h) css)"
  by (simp add: list_all2_map2 list_all2_same)

lemma set_masked_zero_map:
  "set_masked_zero (map (map P) css) (map (map h) css) = map (map (\<lambda>c. if P c then 0 else h c)) css"
proof -
  have a: "map2 (\<lambda>b v. if b then 0 else v) (map P cs) (map h cs) = map (\<lambda>c. if P c then 0 else h c) cs" for cs
    by (induction cs) auto
  show ?thesis
    unfolding set_masked_zero_def by (induction css) (auto simp: a)
qed

lemma from_geom_data: "map_data (from_geom g u) = map (map (\<lambda>c. 0)) (get_coord g)"
  by (simp add: from_geom_def)

lemma fill_by_coord_from_geom:
  "map_data (fill_by_coord (from_geom g u) cs ws) = map (map (\<lambda>c. 0 + weight_at cs ws c)) (get_coord g)"
  by (simp add: fill_by_coord_def from_geom_def map2_nested_same)

lemma counts_zeroed:
  "make_counts X om = om' \<Longrightarrow>
     \<exists>m. map_of (ob_maps om') ''counts'' = Some m \<and> fov_zeroed X om (coords om) m"
  by (auto simp: make_counts_def Let_def map_of_dict_set fov_zeroed_def fill_map_counts_def
      fov_mask_def fov_mask_of_def coords_def fill_by_coord_from_geom set_masked_zero_map
      intro!: list_all2_map_same)

lemma exposure_zeroed:
  "make_exposure X om = om' \<Longrightarrow>
     \<exists>m. map_of (ob_maps om') ''exposure'' = Some m \<and> fov_zeroed X om (coords_etrue om) m"
  by (auto simp: make_exposure_def Let_def map_of_dict_set fov_zeroed_def
      make_map_exposure_true_energy_def
      fov_mask_etrue_def fov_mask_of_def coords_etrue_def set_masked_zero_map
      intro!: list_all2_map_same)

lemma background_zeroed:
  "make_background X om = om' \<Longrightarrow>
     \<exists>m. map_of (ob_maps om') ''background'' = Some m \<and> fov_zeroed X om (coords om) m"
  by (auto simp: make_background_def Let_def map_of_dict_set fov_zeroed_def
      make_map_background_irf_def
      fov_mask_def fov_mask_of_def coords_def set_masked_zero_map
      intro!: list_all2_map_same)

lemma make_named_same: "make_named X om n = Inr om' \<Longrightarrow> om' = om\<lparr>ob_maps := ob_maps om'\<rparr>"
  by (auto simp: make_named_def make_counts_def make_exposure_def make_background_def Let_def
      split: if_splits)

lemma map2_map2_same: "map2 f xs (map2 g xs ys) = map2 (\<lambda>x y. f x (g x y)) xs ys"
  by (induction xs arbitrary: ys) (auto simp: zip_Cons1 split: list.splits)

lemma map2_cong_fun: "(\<And>x y. f x y = g x y) \<Longrightarrow> map2 f xs ys = map2 g xs ys"
  by simp

lemma add_fn_add_fn: "add_fn f (add_fn g m) = add_fn (\<lambda>c. g c + f c) m"
proof -
  have inner: "map2 (\<lambda>c v. v + f c) cs (map2 (\<lambda>c v. v + g c) cs vs) = map2 (\<lambda>c v. v + (g c + f c)) cs vs" for cs vs
    by (simp add: map2_map2_same add.assoc)
  have "map2 (\<lambda>r_c r_v. map2 (\<lambda>c v. v + f c) r_c r_v) css
          (map2 (\<lambda>r_c r_v. map2 (\<lambda>c v. v + g c) r_c r_v) css vss)
        = map2 (\<lambda>r_c r_v. map2 (\<lambda>c v. v + (g c + f c)) r_c r_v) css vss" for css vss
    by (simp add: map2_map2_same add.assoc)
  then show ?thesis by (simp add: add_fn_def)
qed

lemma add_fn_commute: "add_fn f (add_fn g m) = add_fn g (add_fn f m)"
  by (simp add: add_fn_add_fn add.commute)

lemma fill_by_coord_add_fn: "fill_by_coord m cs ws = add_fn (weight_at cs ws) m"
  by (simp add: fill_by_coord_def add_fn_def)

lemma add_fn_unit [simp]: "map_unit (add_fn f m) = map_unit m"
  by (simp add: add_fn_def)

lemma add_fn_geom [simp]: "map_geom (add_fn f m) = map_geom m"
  by (simp add: add_fn_def)

lemma map2_add_zero: "length cs = length vs \<Longrightarrow> map2 (\<lambda>c v. v) cs vs = vs"
  by (induction cs vs rule: list_induct2) auto

lemma map2_nested_add_zero:
  "map length vss = map length css \<Longrightarrow>
     map2 (\<lambda>r_c r_v. map2 (\<lambda>c v. v) r_c r_v) css vss = vss"
proof (induction css arbitrary: vss)
  case Nil
  then show ?case by simp
next
  case (Cons cs css)
  then obtain vs vss' where v: "vss = vs # vss'" by (cases vss) auto
  with Cons.prems have "length vs = length cs" "map length vss' = map length css" by auto
  with Cons.IH v show ?case by (simp add: map2_add_zero)
qed

lemma add_fn_zero: "wf_map m \<Longrightarrow> add_fn (\<lambda>c. 0) m = m"
  by (simp add: add_fn_def wf_map_def map2_nested_add_zero)

lemma wf_map_add_fn: "wf_map m \<Longrightarrow> wf_map (add_fn f m)"
proof -
  have a: "map length vss = map length css \<Longrightarrow>
     map length (map2 (\<lambda>r_c r_v. map2 (\<lambda>c v. v + f c) r_c r_v) css vss) = map length css" for css vss
  proof (induction css arbitrary: vss)
    case Nil
    then show ?case by simp
  next
    case (Cons cs css)
    then obtain vs vss' where v: "vss = vs # vss'" by (cases vss) auto
    with Cons.prems have "length vs = length cs" "map length vss' = map length css" by auto
    with Cons.IH[of vss'] v show ?case by simp
  qed
  show "wf_map m \<Longrightarrow> wf_map (add_fn f m)"
    using a by (simp add: wf_map_def add_fn_def)
qed

lemma wf_map_from_geom: "wf_map (from_geom g u)"
  by (simp add: wf_map_def from_geom_def comp_def)

lemma map_of_shift: "map_of (shift F ms) k = map_option (add_fn (F k)) (map_of ms k)"
  by (induction ms) (auto simp: shift_def)

lemma dict_get_shift: "dict_get (shift F ms) k = map_sum id (add_fn (F k)) (dict_get ms k)"
  by (simp add: dict_get_def map_of_shift split: option.splits)

lemma dict_set_shift: "dict_set (shift F ms) k (add_fn (F k) v) = shift F (dict_set ms k v)"
  by (induction ms) (auto simp: shift_def)

lemma shift_shift: "shift F (shift G ms) = shift (\<lambda>k c. G k c + F k c) ms"
  by (simp add: shift_def add_fn_add_fn)

lemma keys_shift [simp]: "map fst (shift F ms) = map fst ms"
  by (simp add: shift_def)

lemma keys_dict_set: "set (map fst (dict_set d k v)) = insert k (set (map fst d))"
proof (induction d)
  case Nil
  then show ?case by simp
next
  case (Cons a d)
  obtain k' v' where a: "a = (k', v')" by (cases a)
  show ?case
  proof (cases "k' = k")
    case True
    with a show ?thesis by simp
  next
    case False
    with a Cons.IH show ?thesis by (simp add: insert_commute)
  qed
qed

lemma distinct_dict_set: "distinct (map fst d) \<Longrightarrow> distinct (map fst (dict_set d k v))"
proof (induction d)
  case Nil
  then show ?case by simp
next
  case (Cons a d)
  have "fst a \<noteq> k \<Longrightarrow> fst a \<notin> fst ` set (dict_set d k v)"
    using Cons.prems keys_dict_set[of d k v] by auto
  with Cons show ?case by (cases a) auto
qed

lemma wf_maps_shift: "wf_maps ms \<Longrightarrow> wf_maps (shift F ms)"
proof -
  assume a: "wf_maps ms"
  then have "list_all (\<lambda>kv. wf_map (snd kv)) (shift F ms)"
    by (auto simp: wf_maps_def list_all_iff shift_def wf_map_add_fn)
  with a show ?thesis by (simp add: wf_maps_def)
qed

lemma wf_maps_dict_set: "wf_maps ms \<Longrightarrow> wf_map v \<Longrightarrow> wf_maps (dict_set ms k v)"
proof -
  have "list_all (\<lambda>kv. wf_map (snd kv)) ms \<Longrightarrow> wf_map v \<Longrightarrow> list_all (\<lambda>kv. wf_map (snd kv)) (dict_set ms k v)"
    by (induction ms) auto
  then show "wf_maps ms \<Longrightarrow> wf_map v \<Longrightarrow> wf_maps (dict_set ms k v)"
    by (simp add: wf_maps_def distinct_dict_set)
qed

lemma dict_set_as_shift:
  "wf_maps ms \<Longrightarrow> map_of ms n = Some m \<Longrightarrow>
     dict_set ms n (add_fn f m) = shift (\<lambda>k. if k = n then f else (\<lambda>c. 0)) ms"
proof (induction ms)
  case Nil
  then show ?case by simp
next
  case (Cons a ms)
  obtain k v where a: "a = (k, v)" by (cases a)
  have wf: "wf_maps ms" "wf_map v" "k \<notin> fst ` set ms"
    using Cons.prems(1) a by (auto simp: wf_maps_def)
  show ?case
  proof (cases "k = n")
    case True
    then have "m = v" using Cons.prems(2) a by simp
    have rest: "shift (\<lambda>k. if k = n then f else (\<lambda>c. 0)) ms = ms"
      using wf True
    proof (induction ms)
      case Nil
      then show ?case by (simp add: shift_def)
    next
      case (Cons b ms)
      then have "wf_maps ms" "wf_map (snd b)" "fst b \<noteq> n" "k \<notin> fst ` set ms"
        by (auto simp: wf_maps_def)
      with Cons.IH Cons.prems show ?case
        by (cases b) (auto simp: shift_def add_fn_zero)
    qed
    show ?thesis
      using True \<open>m = v\<close> a rest by (simp add: shift_def)
  next
    case False
    then have "map_of ms n = Some m" using Cons.prems(2) a by simp
    with Cons.IH wf have "dict_set ms n (add_fn f m) = shift (\<lambda>k. if k = n then f else (\<lambda>c. 0)) ms"
      by simp
    with False a wf show ?thesis by (simp add: shift_def add_fn_zero)
  qed
qed

lemma fill_selected_shift:
  "fill_selected X om names mo (shift F ms) = map_sum id (shift F) (fill_selected X om names mo ms)"
proof (induction names arbitrary: ms)
  case Nil
  then show ?case by simp
next
  case (Cons n names)
  show ?case
  proof (cases "dict_get mo n")
    case (Inl e)
    then show ?thesis by simp
  next
    case mo_n: (Inr m_o)
    show ?thesis
    proof (cases "dict_get ms n")
      case (Inl e)
      then show ?thesis using mo_n by (simp add: dict_get_shift)
    next
      case ms_n: (Inr m)
      show ?thesis
      proof (cases "to_value X m_o (map_unit m)")
        case (Inl e)
        then show ?thesis using mo_n ms_n by (simp add: dict_get_shift)
      next
        case (Inr d)
        then show ?thesis
          using mo_n ms_n Cons.IH
          by (simp add: dict_get_shift fill_by_coord_add_fn add_fn_commute[of _ "F n"] dict_set_shift)
      qed
    qed
  qed
qed

lemma shift_zero: "wf_maps ms \<Longrightarrow> shift (\<lambda>k c. 0) ms = ms"
proof (induction ms)
  case Nil
  then show ?case by (simp add: shift_def)
next
  case (Cons a ms)
  then have "wf_maps ms" "wf_map (snd a)" by (auto simp: wf_maps_def)
  with Cons.IH show ?case by (cases a) (auto simp: shift_def add_fn_zero)
qed

lemma contribution_shift: "contribution X om mo (shift F ms) = contribution X om mo ms"
  by (rule ext, rule ext) (auto simp: contribution_def dict_get_shift split: sum.splits)

lemma dict_get_Inr: "dict_get d k = Inr v \<longleftrightarrow> map_of d k = Some v"
  by (simp add: dict_get_def split: option.splits)

lemma fill_selected_is_shift:
  "fill_selected X om names mo ms = Inr ms' \<Longrightarrow> wf_maps ms \<Longrightarrow>
     ms' = shift (\<lambda>k c. real (count_list names k) * contribution X om mo ms k c) ms"
proof (induction names arbitrary: ms)
  case Nil
  then show ?case by (simp add: shift_zero)
next
  case (Cons n names)
  from Cons.prems(1) obtain m_o where mo: "dict_get mo n = Inr m_o"
    by (cases "dict_get mo n") auto
  from Cons.prems(1) mo obtain m where m: "dict_get ms n = Inr m"
    by (cases "dict_get ms n") auto
  from Cons.prems(1) mo m obtain d where d: "to_value X m_o (map_unit m) = Inr d"
    by (cases "to_value X m_o (map_unit m)") auto
  define cs where "cs = concat (if n = ''exposure'' then coords_etrue om else coords om)"
  define W where "W = weight_at cs (concat d)"
  define ms1 where "ms1 = dict_set ms n (add_fn W m)"
  have W: "W = contribution X om mo ms n"
    by (rule ext) (simp add: W_def cs_def contribution_def mo m d)
  have rest: "fill_selected X om names mo ms1 = Inr ms'"
    using Cons.prems(1) mo m d by (simp add: ms1_def W_def cs_def fill_by_coord_add_fn)
  have ms1: "ms1 = shift (\<lambda>k. if k = n then W else (\<lambda>c. 0)) ms"
    unfolding ms1_def using Cons.prems(2) m by (intro dict_set_as_shift) (simp_all add: dict_get_Inr)
  then have "wf_maps ms1" using Cons.prems(2) by (simp add: wf_maps_shift)
  with Cons.IH rest have "ms' = shift (\<lambda>k c. real (count_list names k) * contribution X om mo ms1 k c) ms1"
    by simp
  then have "ms' = shift (\<lambda>k c. (if k = n then W else (\<lambda>c. 0)) c
                                + real (count_list names k) * contribution X om mo ms k c) ms"
    by (simp add: ms1 contribution_shift shift_shift)
  moreover have "(\<lambda>k c. (if k = n then W else (\<lambda>c. 0)) c
                                + real (count_list names k) * contribution X om mo ms k c)
      = (\<lambda>k c. real (count_list (n # names) k) * contribution X om mo ms k c)"
    by (rule ext, rule ext) (simp add: W algebra_simps)
  ultimately show ?case by simp
qed

lemma weight_at_outside: "c \<notin> set cs \<Longrightarrow> weight_at cs ws c = 0"
proof -
  assume a: "c \<notin> set cs"
  have "filter (\<lambda>cw. fst cw = c) (zip cs ws) = []"
    using a by (auto simp: filter_empty_conv dest: set_zip_leftD)
  then show ?thesis by (simp add: weight_at_def)
qed

lemma get_coord_fst: "c \<in> set (concat (get_coord g)) \<Longrightarrow> fst c \<in> set (skypix g)"
  by (auto simp: get_coord_def)

lemma contribution_outside:
  "fst c \<notin> set (skypix (ob_geom om)) \<Longrightarrow> fst c \<notin> set (skypix (ob_geom_true om)) \<Longrightarrow>
     contribution X om mo ms k c = 0"
proof -
  assume a: "fst c \<notin> set (skypix (ob_geom om))" "fst c \<notin> set (skypix (ob_geom_true om))"
  then have "c \<notin> set (concat (if k = ''exposure'' then coords_etrue om else coords om))"
    using get_coord_fst[of c] by (auto simp: coords_def coords_etrue_def)
  then show ?thesis
    by (simp add: contribution_def weight_at_outside split: sum.splits)
qed

lemma loop_shift:
  "MapMaker_run_loop X mk sel os (shift F ms) lg =
     map_sum id (\<lambda>r. (shift F (fst r), snd r)) (MapMaker_run_loop X mk sel os ms lg)"
proof (induction os arbitrary: ms lg)
  case Nil
  then show ?case by simp
next
  case (Cons obs os)
  show ?case
  proof (cases "get_obs_maker X mk obs Trim")
    case (Inl e)
    then show ?thesis using Cons.IH by (simp add: Let_def)
  next
    case om: (Inr om)
    show ?thesis
    proof (cases "MapMakerObs_run X om (SelList sel)")
      case (Inl e)
      then show ?thesis using om by (simp add: Let_def)
    next
      case mo: (Inr mo)
      show ?thesis
      proof (cases "fill_selected X om sel mo ms")
        case (Inl e)
        then show ?thesis using om mo by (simp add: Let_def fill_selected_shift)
      next
        case (Inr ms')
        then show ?thesis using om mo Cons.IH by (simp add: Let_def fill_selected_shift)
      qed
    qed
  qed
qed

lemma loop_append:
  "MapMaker_run_loop X mk sel (xs @ ys) ms lg =
     bind_err (MapMaker_run_loop X mk sel xs ms lg)
       (\<lambda>r. MapMaker_run_loop X mk sel ys (fst r) (snd r))"
proof (induction xs arbitrary: ms lg)
  case Nil
  then show ?case by simp
next
  case (Cons obs xs)
  show ?case
    by (cases "get_obs_maker X mk obs Trim")
       (auto simp: Let_def Cons.IH bind_err_def split: sum.splits)
qed

lemma loop_log_indep:
  "map_sum id fst (MapMaker_run_loop X mk sel os ms lg) =
   map_sum id fst (MapMaker_run_loop X mk sel os ms lg')"
proof (induction os arbitrary: ms lg lg')
  case Nil
  then show ?case by simp
next
  case (Cons obs os)
  show ?case
  proof (cases "get_obs_maker X mk obs Trim")
    case (Inl e)
    then show ?thesis using Cons.IH by (simp add: Let_def)
  next
    case (Inr om)
    then show ?thesis using Cons.IH
      by (auto simp: Let_def bind_err_def split: sum.splits)
  qed
qed

lemma loop_single_is_shift:
  assumes "MapMaker_run_loop X mk sel [obs] ms lg = Inr (ms', lg')" and "wf_maps ms"
  shows "\<exists>F. ms' = shift F ms \<and> (\<forall>k c. fst c \<notin> set (footprint X mk obs) \<longrightarrow> F k c = 0)"
proof (cases "get_obs_maker X mk obs Trim")
  case (Inl e)
  with assms have "ms' = shift (\<lambda>k c. 0) ms"
    by (simp add: Let_def shift_zero split: if_splits)
  then show ?thesis by blast
next
  case om: (Inr om)
  from assms(1) om obtain mo where mo: "MapMakerObs_run X om (SelList sel) = Inr mo"
    by (cases "MapMakerObs_run X om (SelList sel)") (auto simp: Let_def)
  from assms(1) om mo have fs: "fill_selected X om sel mo ms = Inr ms'"
    by (cases "fill_selected X om sel mo ms") (auto simp: Let_def)
  have "ms' = shift (\<lambda>k c. real (count_list sel k) * contribution X om mo ms k c) ms"
    using fs assms(2) by (rule fill_selected_is_shift)
  moreover have "\<forall>k c. fst c \<notin> set (footprint X mk obs) \<longrightarrow>
      real (count_list sel k) * contribution X om mo ms k c = 0"
    using om by (auto simp: footprint_def contribution_outside)
  ultimately show ?thesis by blast
qed

lemma get_empty_maps_loop_map_of:
  "get_empty_maps_loop mk names acc = Inr ms \<Longrightarrow>
     map_of ms n =
       (if n \<in> set names
        then (if n = ''exposure''
              then (case mk_geom_true mk of PyWcsGeom g \<Rightarrow> Some (from_geom g ''m2 s'') | _ \<Rightarrow> None)
              else Some (from_geom (mk_geom mk) ''''))
        else map_of acc n)"
proof (induction names arbitrary: acc)
  case Nil
  then show ?case by simp
next
  case (Cons a names)
  show ?case
  proof (cases "a = ''exposure''")
    case True
    with Cons.prems obtain g where g: "mk_geom_true mk = PyWcsGeom g"
      by (cases "mk_geom_true mk") (auto simp: from_geom_obj_def)
    with Cons.prems True have "get_empty_maps_loop mk names (dict_set acc a (from_geom g ''m2 s'')) = Inr ms"
      by (simp add: from_geom_obj_def)
    from Cons.IH[OF this] True g show ?thesis by (simp add: map_of_dict_set)
  next
    case False
    with Cons.prems have "get_empty_maps_loop mk names (dict_set acc a (from_geom (mk_geom mk) '''')) = Inr ms"
      by simp
    from Cons.IH[OF this] False show ?thesis by (auto simp: map_of_dict_set)
  qed
qed

lemma get_empty_maps_loop_keys:
  "get_empty_maps_loop mk names acc = Inr ms \<Longrightarrow> distinct (map fst acc) \<Longrightarrow>
     distinct (map fst ms) \<and> set (map fst ms) = set names \<union> set (map fst acc)"
proof (induction names arbitrary: acc)
  case Nil
  then show ?case by simp
next
  case (Cons a names)
  from Cons.prems(1) obtain v where
    "get_empty_maps_loop mk names (dict_set acc a v) = Inr ms"
    by (cases "a = ''exposure''"; cases "from_geom_obj (mk_geom_true mk) ''m2 s''") auto
  from Cons.IH[OF this] Cons.prems(2) show ?case
    using keys_dict_set[of acc a v] by (auto simp: distinct_dict_set)
qed

lemma get_empty_maps_entries:
  assumes "get_empty_maps mk names = Inr ms"
  shows "distinct (map fst ms)" and "set (map fst ms) = set names"
    and "\<And>k m. (k, m) \<in> set ms \<Longrightarrow>
           m = from_geom (map_geom m) (if k = ''exposure'' then ''m2 s'' else '''')"
proof -
  from assms have l: "get_empty_maps_loop mk names [] = Inr ms"
    by (simp add: get_empty_maps_def)
  from get_empty_maps_loop_keys[OF l] show d: "distinct (map fst ms)"
    and k: "set (map fst ms) = set names" by auto
  fix k m assume km: "(k, m) \<in> set ms"
  with d have mo: "map_of ms k = Some m" by simp
  from km k have "k \<in> set names" by force
  with get_empty_maps_loop_map_of[OF l, of k] mo
  show "m = from_geom (map_geom m) (if k = ''exposure'' then ''m2 s'' else '''')"
    by (auto simp: from_geom_def split: if_splits pyobj.splits)
qed

lemma get_empty_maps_wf: "get_empty_maps mk names = Inr ms \<Longrightarrow> wf_maps ms"
proof -
  assume a: "get_empty_maps mk names = Inr ms"
  have "wf_map (snd kv)" if "kv \<in> set ms" for kv
  proof -
    obtain k m where "kv = (k, m)" by (cases kv)
    with that get_empty_maps_entries(3)[OF a, of k m] wf_map_from_geom[of "map_geom m"]
    show ?thesis by (metis snd_conv)
  qed
  with get_empty_maps_entries(1)[OF a] show ?thesis
    by (simp add: wf_maps_def list_all_iff)
qed

lemma add_fn_from_geom:
  "add_fn f (from_geom g u) = \<lparr>map_geom = g, map_unit = u, map_data = map (map f) (get_coord g)\<rparr>"
  by (simp add: add_fn_def from_geom_def map2_nested_same)

lemma add_fn_mapped:
  "add_fn f \<lparr>map_geom = g, map_unit = u, map_data = map (map h) (get_coord g)\<rparr>
     = \<lparr>map_geom = g, map_unit = u, map_data = map (map (\<lambda>c. h c + f c)) (get_coord g)\<rparr>"
  by (simp add: add_fn_def map2_nested_same)

lemma add_fn_twice_zero: "add_fn f (add_fn f (from_geom g u)) = scale_map 2 (add_fn f (from_geom g u))"
  by (simp add: add_fn_from_geom add_fn_mapped scale_map_def comp_def)

lemma map2_zip_nested: "map2 zip (map (map f) css) (map (map g) css) = map (map (\<lambda>c. (f c, g c))) css"
proof -
  have "zip (map f cs) (map g cs) = map (\<lambda>c. (f c, g c)) cs" for cs
    by (induction cs) auto
  then show ?thesis by (induction css) auto
qed

lemma union_map_zero:
  assumes "\<And>c. fst c \<notin> set fp \<Longrightarrow> fa c = 0" and "\<And>c. fst c \<in> set fp \<Longrightarrow> fb c = 0"
  shows "union_map fp (add_fn fa (from_geom g u)) (add_fn fb (from_geom g u))
           = add_fn fa (add_fn fb (from_geom g u))"
proof -
  show ?thesis
    using assms
    by (simp add: add_fn_from_geom add_fn_mapped union_map_def map2_zip_nested map2_nested_same)
qed

lemma shift_twice_zero:
  assumes "\<And>k m. (k, m) \<in> set ms \<Longrightarrow> \<exists>g u. m = from_geom g u"
  shows "shift F (shift F ms) = map (\<lambda>kv. (fst kv, scale_map 2 (snd kv))) (shift F ms)"
  using assms
proof (induction ms)
  case Nil
  then show ?case by (simp add: shift_def)
next
  case (Cons a ms)
  obtain k m where a: "a = (k, m)" by (cases a)
  with Cons.prems[of k m] obtain g u where m: "m = from_geom g u" by auto
  have "shift F (shift F ms) = map (\<lambda>kv. (fst kv, scale_map 2 (snd kv))) (shift F ms)"
    using Cons.IH Cons.prems by auto
  then show ?case
    using a m add_fn_twice_zero[of "F k" g u] by (simp add: shift_def)
qed

lemma shift_union_zero:
  assumes "\<And>k m. (k, m) \<in> set ms \<Longrightarrow> \<exists>g u. m = from_geom g u"
    and "\<And>k c. fst c \<notin> set fp \<Longrightarrow> Fa k c = 0"
    and "\<And>k c. fst c \<in> set fp \<Longrightarrow> Fb k c = 0"
  shows "union_maps fp (shift Fa ms) (shift Fb ms) = shift Fa (shift Fb ms)"
  using assms(1)
proof (induction ms)
  case Nil
  then show ?case by (simp add: shift_def union_maps_def)
next
  case (Cons a ms)
  obtain k m where a: "a = (k, m)" by (cases a)
  with Cons.prems[of k m] obtain g u where m: "m = from_geom g u" by auto
  have "union_maps fp (shift Fa ms) (shift Fb ms) = shift Fa (shift Fb ms)"
    using Cons.IH Cons.prems by auto
  then show ?case
    using a m union_map_zero[of fp "Fa k" "Fb k" g u] assms(2,3)
    by (simp add: shift_def union_maps_def)
qed

lemma loop_relog:
  assumes "MapMaker_run_loop X mk sel os ms lg = Inr (ms', lg')"
  shows "\<exists>l. MapMaker_run_loop X mk sel os ms lg2 = Inr (ms', l)"
proof -
  have "map_sum id fst (MapMaker_run_loop X mk sel os ms lg2) = Inr ms'"
    using loop_log_indep[of X mk sel os ms lg2 lg] assms by simp
  then show ?thesis
    by (cases "MapMaker_run_loop X mk sel os ms lg2") auto
qed

lemma loop_two:
  assumes a: "MapMaker_run_loop X mk sel [a] ms [] = Inr (ma, la)"
    and b: "MapMaker_run_loop X mk sel [b] ms [] = Inr (mb, lb)"
    and F: "ma = shift F ms"
  shows "\<exists>l. MapMaker_run_loop X mk sel [a, b] ms [] = Inr (shift F mb, l)"
proof -
  from loop_relog[OF b, of la] obtain l where l: "MapMaker_run_loop X mk sel [b] ms la = Inr (mb, l)"
    by blast
  have "MapMaker_run_loop X mk sel ([a] @ [b]) ms [] =
          bind_err (MapMaker_run_loop X mk sel [a] ms [])
            (\<lambda>r. MapMaker_run_loop X mk sel [b] (fst r) (snd r))"
    by (rule loop_append)
  also have "\<dots> = MapMaker_run_loop X mk sel [b] (shift F ms) la"
    by (simp only: a F bind_err_Inr fst_conv snd_conv)
  also have "\<dots> = Inr (shift F mb, l)"
    by (simp only: loop_shift l map_sum.simps fst_conv snd_conv)
  finally show ?thesis by auto
qed

lemma check_selection_Inr:
  "check_selection selection = Inr names \<Longrightarrow>
     set names \<subseteq> set available \<and> (selection = SelNone \<and> names = available \<or> selection = SelList names)"
  using first_unavailable_None[of names] first_unavailable_None[of available]
  by (cases selection) (auto simp: check_selection_def Let_def split: option.splits if_splits)

lemma make_loop_total:
  "set names \<subseteq> set available \<Longrightarrow> \<exists>om'. make_loop X om names = Inr om'"
proof (induction names arbitrary: om)
  case Nil
  then show ?case by simp
next
  case (Cons n names)
  then have "n \<in> set available" "set names \<subseteq> set available" by auto
  then obtain om1 where "make_named X om n = Inr om1"
    by (auto simp: make_named_def available_def)
  with Cons.IH[OF \<open>set names \<subseteq> set available\<close>, of om1] show ?case by simp
qed

lemma MapMakerObs_run_total:
  "set names \<subseteq> set available \<Longrightarrow> \<exists>mo. MapMakerObs_run X om (SelList names) = Inr mo"
  using make_loop_total[of names X om]
  by (auto simp: MapMakerObs_run_def check_selection_list_ok)

lemma geom_cutout_Trim_err: "geom_cutout X g p w Trim = Inl e \<Longrightarrow> e = NoOverlapError"
  by (auto simp: geom_cutout_def split: overlap.splits)

lemma geom_cutout_Strict_err:
  "geom_cutout X g p w Strict = Inl e \<Longrightarrow> e = NoOverlapError \<or> e = PartialOverlapError"
  by (auto simp: geom_cutout_def split: overlap.splits)

lemma geom_cutout_err:
  "geom_cutout X g p w mode = Inl e \<Longrightarrow>
     e = NoOverlapError \<or> (mode = Strict \<and> e = PartialOverlapError)"
  by (cases mode) (auto dest: geom_cutout_Trim_err geom_cutout_Strict_err)

lemma get_obs_maker_err:
  "get_obs_maker X mk obs mode = Inl e \<Longrightarrow>
     e = NoOverlapError \<or> e = AttributeError \<or> (mode = Strict \<and> e = PartialOverlapError)"
  by (auto simp: get_obs_maker_def Let_def bind_err_eq_Inl obj_cutout_def map_cutout_def
      split: pyobj.splits option.splits dest: geom_cutout_err)

lemma fill_selected_err:
  "fill_selected X om names mo ms = Inl e \<Longrightarrow> e = UnitConversionError \<or> (\<exists>k. e = KeyError k)"
proof (induction names arbitrary: ms)
  case Nil
  then show ?case by simp
next
  case (Cons n names)
  then show ?case
    by (auto simp: bind_err_eq_Inl dict_get_def to_value_def split: option.splits)
qed

lemma loop_err:
  "MapMaker_run_loop X mk sel os ms lg = Inl e \<Longrightarrow> set sel \<subseteq> set available \<Longrightarrow>
     e = AttributeError \<or> e = UnitConversionError \<or> (\<exists>k. e = KeyError k)"
proof (induction os arbitrary: ms lg)
  case Nil
  then show ?case by simp
next
  case (Cons obs os)
  show ?case
  proof (cases "get_obs_maker X mk obs Trim")
    case (Inl e')
    with Cons.prems(1) have "e' = NoOverlapError \<and> MapMaker_run_loop X mk sel os ms
        (lg @ [log_processing obs] @ [log_no_overlap obs]) = Inl e \<or> e' \<noteq> NoOverlapError \<and> e = e'"
      by (auto simp: Let_def split: if_splits)
    with Cons.IH Cons.prems(2) get_obs_maker_err[OF Inl] show ?thesis by auto
  next
    case om: (Inr om)
    from MapMakerObs_run_total[OF Cons.prems(2), of X om] obtain mo where
      mo: "MapMakerObs_run X om (SelList sel) = Inr mo" by blast
    show ?thesis
    proof (cases "fill_selected X om sel mo ms")
      case (Inl e')
      with Cons.prems(1) om mo have "e = e'" by (simp add: Let_def)
      with fill_selected_err[OF Inl] show ?thesis by simp
    next
      case (Inr ms')
      with Cons.prems(1) om mo have "MapMaker_run_loop X mk sel os ms' (lg @ [log_processing obs]) = Inl e"
        by (simp add: Let_def)
      with Cons.IH Cons.prems(2) show ?thesis by blast
    qed
  qed
qed

lemma get_empty_maps_err: "get_empty_maps mk names = Inl e \<Longrightarrow> e = AttributeError"
proof -
  have "get_empty_maps_loop mk names acc = Inl e \<Longrightarrow> e = AttributeError" for acc
  proof (induction names arbitrary: acc)
    case Nil
    then show ?case by simp
  next
    case (Cons n names)
    then show ?case
      by (auto simp: bind_err_eq_Inl from_geom_obj_def split: if_splits pyobj.splits)
  qed
  then show "get_empty_maps mk names = Inl e \<Longrightarrow> e = AttributeError"
    by (simp add: get_empty_maps_def)
qed

lemma MapMaker_run_err:
  assumes "MapMaker_run X mk os selection = Inl e"
  shows "check_selection selection = Inl e
         \<or> e = AttributeError \<or> e = UnitConversionError \<or> (\<exists>k. e = KeyError k)"
proof (cases "check_selection selection")
  case (Inl e')
  with assms show ?thesis by (simp add: MapMaker_run_def)
next
  case (Inr names)
  then have sub: "set names \<subseteq> set available" using check_selection_Inr by blast
  show ?thesis
  proof (cases "get_empty_maps mk names")
    case (Inl e')
    with assms Inr get_empty_maps_err[OF Inl] show ?thesis by (simp add: MapMaker_run_def)
  next
    case ms: (Inr ms0)
    with assms Inr have "MapMaker_run_loop X mk names os ms0 [] = Inl e"
      by (cases "MapMaker_run_loop X mk names os ms0 []") (auto simp: MapMaker_run_def)
    from loop_err[OF this sub] show ?thesis by simp
  qed
qed

lemma fov_zeroed_maps_irrelevant [simp]:
  "fov_zeroed X (om\<lparr>ob_maps := d\<rparr>) cs m = fov_zeroed X om cs m"
  by (simp add: fov_zeroed_def)

lemma coords_maps_irrelevant [simp]:
  "coords (om\<lparr>ob_maps := d\<rparr>) = coords om" "coords_etrue (om\<lparr>ob_maps := d\<rparr>) = coords_etrue om"
  by (simp_all add: coords_def coords_etrue_def)

lemma make_named_other:
  "make_named X om n = Inr om' \<Longrightarrow> k \<noteq> n \<Longrightarrow> map_of (ob_maps om') k = map_of (ob_maps om) k"
  by (auto simp: make_named_def make_counts_def make_exposure_def make_background_def Let_def
      map_of_dict_set split: if_splits)

lemma make_named_zeroed:
  assumes "make_named X om n = Inr om'"
  shows "\<exists>m. map_of (ob_maps om') n = Some m
           \<and> fov_zeroed X om (if n = ''exposure'' then coords_etrue om else coords om) m"
proof -
  from assms consider
      (c) "n = ''counts''" "om' = make_counts X om"
    | (e) "n = ''exposure''" "om' = make_exposure X om"
    | (b) "n = ''background''" "om' = make_background X om"
    by (auto simp: make_named_def split: if_splits)
  then show ?thesis
  proof cases
    case c
    with counts_zeroed[of X om om'] show ?thesis by simp
  next
    case e
    with exposure_zeroed[of X om om'] show ?thesis by simp
  next
    case b
    with background_zeroed[of X om om'] show ?thesis by simp
  qed
qed

lemma make_loop_zeroed:
  "make_loop X om names = Inr om' \<Longrightarrow>
     om' = om\<lparr>ob_maps := ob_maps om'\<rparr>
     \<and> (\<forall>k. (k \<in> set names
              \<or> (\<exists>m. map_of (ob_maps om) k = Some m
                     \<and> fov_zeroed X om (if k = ''exposure'' then coords_etrue om else coords om) m))
           \<longrightarrow> (\<exists>m. map_of (ob_maps om') k = Some m
                     \<and> fov_zeroed X om (if k = ''exposure'' then coords_etrue om else coords om) m))"
proof (induction names arbitrary: om)
  case Nil
  then show ?case by simp
next
  case (Cons n names)
  from Cons.prems obtain om1 where om1: "make_named X om n = Inr om1"
    and rest: "make_loop X om1 names = Inr om'"
    by (cases "make_named X om n") auto
  have same1: "om1 = om\<lparr>ob_maps := ob_maps om1\<rparr>" using om1 by (rule make_named_same)
  from Cons.IH[OF rest] have same2: "om' = om1\<lparr>ob_maps := ob_maps om'\<rparr>"
    and inv: "\<And>k. k \<in> set names
              \<or> (\<exists>m. map_of (ob_maps om1) k = Some m
                     \<and> fov_zeroed X om1 (if k = ''exposure'' then coords_etrue om1 else coords om1) m)
           \<Longrightarrow> (\<exists>m. map_of (ob_maps om') k = Some m
                     \<and> fov_zeroed X om1 (if k = ''exposure'' then coords_etrue om1 else coords om1) m)"
    by blast+
  have fz: "fov_zeroed X om1 cs m = fov_zeroed X om cs m" for cs m
    by (subst same1) simp
  have co: "coords om1 = coords om" "coords_etrue om1 = coords_etrue om"
    by (subst same1, simp)+
  have same: "om' = om\<lparr>ob_maps := ob_maps om'\<rparr>"
    by (subst same2, subst same1) simp
  have step: "\<exists>m. map_of (ob_maps om') k = Some m
                     \<and> fov_zeroed X om (if k = ''exposure'' then coords_etrue om else coords om) m"
    if k: "k \<in> set (n # names)
              \<or> (\<exists>m. map_of (ob_maps om) k = Some m
                     \<and> fov_zeroed X om (if k = ''exposure'' then coords_etrue om else coords om) m)"
    for k
  proof -
    have "k \<in> set names
              \<or> (\<exists>m. map_of (ob_maps om1) k = Some m
                     \<and> fov_zeroed X om1 (if k = ''exposure'' then coords_etrue om1 else coords om1) m)"
    proof (cases "k = n")
      case True
      with make_named_zeroed[OF om1] show ?thesis by (auto simp: fz co split: if_splits)
    next
      case False
      with k make_named_other[OF om1 False] show ?thesis by (auto simp: fz co split: if_splits)
    qed
    from inv[OF this] show ?thesis by (auto simp: fz co split: if_splits)
  qed
  from same step show ?case by blast
qed

lemma loop_skip:
  assumes "get_obs_maker X mk obs Trim = Inl NoOverlapError"
  shows "map_sum id fst (MapMaker_run_loop X mk sel (pre @ obs # post) ms lg)
           = map_sum id fst (MapMaker_run_loop X mk sel (pre @ post) ms lg)"
proof (cases "MapMaker_run_loop X mk sel pre ms lg")
  case (Inl e)
  then show ?thesis by (simp add: loop_append)
next
  case (Inr r)
  have "MapMaker_run_loop X mk sel (obs # post) (fst r) (snd r)
          = MapMaker_run_loop X mk sel post (fst r) ((snd r @ [log_processing obs]) @ [log_no_overlap obs])"
    using assms by (simp add: Let_def)
  then show ?thesis
    using Inr loop_log_indep[of X mk sel post "fst r" "(snd r @ [log_processing obs]) @ [log_no_overlap obs]" "snd r"]
    by (simp add: loop_append)
qed

lemma ring_loop_append:
  "MapMakerRing_run_loop X rk soa sp kd (xs @ ys) ms lg =
     bind_err (MapMakerRing_run_loop X rk soa sp kd xs ms lg)
       (\<lambda>r. MapMakerRing_run_loop X rk soa sp kd ys (fst r) (snd r))"
proof (induction xs arbitrary: ms lg)
  case Nil
  then show ?case by simp
next
  case (Cons obs xs)
  show ?case
    by (cases "get_obs_maker X rk obs Strict")
       (auto simp: Cons.IH bind_err_def split: sum.splits)
qed

lemma ring_loop_log_indep:
  "map_sum id fst (MapMakerRing_run_loop X rk soa sp kd os ms lg) =
   map_sum id fst (MapMakerRing_run_loop X rk soa sp kd os ms lg')"
proof (induction os arbitrary: ms lg lg')
  case Nil
  then show ?case by simp
next
  case (Cons obs os)
  show ?case
  proof (cases "get_obs_maker X rk obs Strict")
    case (Inl e)
    then show ?thesis using Cons.IH by simp
  next
    case (Inr om)
    then show ?thesis using Cons.IH
      by (auto simp: bind_err_def split: sum.splits)
  qed
qed

lemma ring_loop_skip:
  assumes "get_obs_maker X rk obs Strict = Inl NoOverlapError
           \<or> get_obs_maker X rk obs Strict = Inl PartialOverlapError"
  shows "map_sum id fst (MapMakerRing_run_loop X rk soa sp kd (pre @ obs # post) ms lg)
           = map_sum id fst (MapMakerRing_run_loop X rk soa sp kd (pre @ post) ms lg)"
proof (cases "MapMakerRing_run_loop X rk soa sp kd pre ms lg")
  case (Inl e)
  then show ?thesis by (simp add: ring_loop_append)
next
  case (Inr r)
  from assms obtain l where
    "MapMakerRing_run_loop X rk soa sp kd (obs # post) (fst r) (snd r)
       = MapMakerRing_run_loop X rk soa sp kd post (fst r) l"
    by auto
  then show ?thesis
    using Inr ring_loop_log_indep[of X rk soa sp kd post "fst r" l "snd r"]
    by (simp add: ring_loop_append)
qed

lemma obs_sum_over_axes_err:
  "obs_sum_over_axes X d sp kd images = Inl e \<Longrightarrow> e = AttributeError"
proof (induction d arbitrary: images)
  case Nil
  then show ?case by simp
next
  case (Cons a d)
  obtain k v where a: "a = (k, v)" by (cases a)
  with Cons show ?case by (cases v) auto
qed

lemma MapMakerObs_run_default: "\<exists>mo. MapMakerObs_run X om SelNone = Inr mo"
proof -
  have "set available \<subseteq> set available" by simp
  from make_loop_total[OF this, of X om] show ?thesis
    by (auto simp: MapMakerObs_run_def check_selection_def first_unavailable_None[of available]
        split: option.splits)
qed

lemma ring_obs_maps_err:
  "ring_obs_maps X rk om soa sp kd = Inl e \<Longrightarrow> e = AttributeError \<or> (\<exists>k. e = KeyError k)"
proof -
  assume a: "ring_obs_maps X rk om soa sp kd = Inl e"
  obtain mo where mo: "MapMakerObs_run X om SelNone = Inr mo"
    using MapMakerObs_run_default by blast
  from a show ?thesis
    unfolding ring_obs_maps_def mo Let_def
    by (auto simp: bind_err_eq_Inl dict_pop_def
        split: if_splits option.splits dest: obs_sum_over_axes_err)
qed

lemma paste_selected_err:
  "paste_selected X names mo ms = Inl e \<Longrightarrow>
     e = AttributeError \<or> e = UnitConversionError \<or> (\<exists>k. e = KeyError k)"
proof (induction names arbitrary: ms)
  case Nil
  then show ?case by simp
next
  case (Cons n names)
  then show ?case
    by (auto simp: bind_err_eq_Inl dict_get_def to_value_def split: option.splits)
qed

lemma ring_loop_err:
  "MapMakerRing_run_loop X rk soa sp kd os ms lg = Inl e \<Longrightarrow>
     e = AttributeError \<or> e = UnitConversionError \<or> (\<exists>k. e = KeyError k)"
proof (induction os arbitrary: ms lg)
  case Nil
  then show ?case by simp
next
  case (Cons obs os)
  show ?case
  proof (cases "get_obs_maker X rk obs Strict")
    case (Inl e')
    from get_obs_maker_err[OF Inl] Cons.prems Inl Cons.IH show ?thesis
      by (auto split: if_splits)
  next
    case om: (Inr om)
    show ?thesis
    proof (cases "ring_obs_maps X rk om soa sp kd")
      case (Inl e')
      with Cons.prems om have "e = e'" by simp
      with ring_obs_maps_err[OF Inl] show ?thesis by auto
    next
      case mo: (Inr mo)
      show ?thesis
      proof (cases "paste_selected X ring_selection mo ms")
        case (Inl e')
        with Cons.prems om mo have "e = e'" by simp
        with paste_selected_err[OF Inl] show ?thesis by auto
      next
        case (Inr ms')
        with Cons.prems om mo have "MapMakerRing_run_loop X rk soa sp kd os ms' lg = Inl e"
          by simp
        with Cons.IH show ?thesis by blast
      qed
    qed
  qed
qed

lemma MapMakerRing__run_err:
  assumes "MapMakerRing__run X rk os soa sp kd = Inl e"
  shows "e = AttributeError \<or> e = UnitConversionError \<or> (\<exists>k. e = KeyError k)"
proof (cases "get_empty_maps rk ring_selection")
  case (Inl e')
  with assms get_empty_maps_err[OF Inl] show ?thesis
    by (simp add: MapMakerRing__run_def)
next
  case (Inr ms0)
  define ms where "ms = (if soa then maps_sum_over_axes X ms0 sp kd else ms0)"
  from assms Inr have "MapMakerRing_run_loop X rk soa sp kd os ms [] = Inl e"
    by (cases "MapMakerRing_run_loop X rk soa sp kd os ms []")
       (auto simp: MapMakerRing__run_def Let_def ms_def)
  from ring_loop_err[OF this] show ?thesis .
qed

lemma foldl_map2_length:
  "length (foldl (\<lambda>acc row. map2 (+) acc row) (acc :: real list) rows) \<le> length acc"
proof (induction rows arbitrary: acc)
  case Nil
  then show ?case by simp
next
  case (Cons r rows)
  have "length (foldl (\<lambda>acc row. map2 (+) acc row) (map2 (+) acc r) rows) \<le> length (map2 (+) acc r)"
    by (rule Cons.IH)
  then show ?case by simp
qed

lemma sum_planes_length: "length (sum_planes g rows) \<le> length (skypix g)"
  using foldl_map2_length[of "map (\<lambda>p. 0) (skypix g)" rows] by (simp add: sum_planes_def)

lemma map2_add_zeros:
  "length r \<le> length ps \<Longrightarrow> map2 (+) (map (\<lambda>p. 0 :: real) ps) r = r"
proof (induction r arbitrary: ps)
  case Nil
  then show ?case by simp
next
  case (Cons v r)
  then obtain p ps' where "ps = p # ps'" by (cases ps) auto
  with Cons show ?case by simp
qed

lemma sum_planes_single:
  "length r \<le> length (skypix g) \<Longrightarrow> sum_planes g [r] = r"
  by (simp add: sum_planes_def map2_add_zeros)

lemma sum_over_axes_twice:
  "sum_over_axes (sum_over_axes m True) False = sum_over_axes m False"
proof -
  have "sum_planes (squash (map_geom m)) [sum_planes (map_geom m) (map_data m)]
          = sum_planes (map_geom m) (map_data m)"
    using sum_planes_length[of "map_geom m" "map_data m"]
    by (intro sum_planes_single) (simp add: squash_def)
  then show ?thesis
    by (simp add: sum_over_axes_def to_image_def squash_def)
qed

lemma sum_one_twice:
  "sum_over_axes (sum_one X spectrum True name m) False = sum_one X spectrum False name m"
  by (simp add: sum_one_def Let_def sum_over_axes_twice)

lemma map_values_dict_set:
  "map (\<lambda>kv. (fst kv, f (snd kv))) (dict_set d k v) = dict_set (map (\<lambda>kv. (fst kv, f (snd kv))) d) k (f v)"
  by (induction d) auto

lemma maps_sum_over_axes_twice:
  "map (\<lambda>kv. (fst kv, sum_over_axes (snd kv) False)) (maps_sum_over_axes X maps spectrum True)
     = maps_sum_over_axes X maps spectrum False"
proof -
  have "map (\<lambda>kv. (fst kv, sum_over_axes (snd kv) False))
          (foldl (\<lambda>images item. dict_set images (fst item)
                     (sum_one X spectrum True (fst item) (snd item))) acc maps)
        = foldl (\<lambda>images item. dict_set images (fst item)
                     (sum_one X spectrum False (fst item) (snd item)))
            (map (\<lambda>kv. (fst kv, sum_over_axes (snd kv) False)) acc) maps" for acc
  proof (induction maps arbitrary: acc)
    case Nil
    then show ?case by simp
  next
    case (Cons a maps)
    show ?case
      by (simp add: Cons.IH map_values_dict_set[where f = "\<lambda>m. sum_over_axes m False"]
          sum_one_twice)
  qed
  from this[of "[]"] show ?thesis by (simp add: maps_sum_over_axes_def)
qed

lemma make_loop_other:
  "make_loop X om names = Inr om' \<Longrightarrow> k \<notin> set names \<Longrightarrow>
     map_of (ob_maps om') k = map_of (ob_maps om) k"
proof (induction names arbitrary: om)
  case Nil
  then show ?case by simp
next
  case (Cons n names)
  from Cons.prems obtain om1 where om1: "make_named X om n = Inr om1"
    and rest: "make_loop X om1 names = Inr om'"
    by (cases "make_named X om n") auto
  from Cons.prems(2) have "k \<noteq> n" "k \<notin> set names" by auto
  with Cons.IH[OF rest] make_named_other[OF om1] show ?case by simp
qed

lemma make_named_value:
  "make_named X (om\<lparr>ob_maps := d\<rparr>) n = Inr om' \<Longrightarrow> make_named X om n = Inr om'' \<Longrightarrow>
     map_of (ob_maps om') n = map_of (ob_maps om'') n"
  by (auto simp: make_named_def make_counts_def make_exposure_def make_background_def Let_def
      map_of_dict_set fov_mask_def fov_mask_etrue_def fov_mask_of_def coords_def coords_etrue_def
      split: if_splits)

lemma make_loop_value:
  "make_loop X (om\<lparr>ob_maps := d\<rparr>) names = Inr om' \<Longrightarrow> n \<in> set names \<Longrightarrow>
     make_named X om n = Inr om'' \<Longrightarrow>
     map_of (ob_maps om') n = map_of (ob_maps om'') n"
proof (induction names arbitrary: d)
  case Nil
  then show ?case by simp
next
  case (Cons a names)
  from Cons.prems(1) obtain om1 where om1: "make_named X (om\<lparr>ob_maps := d\<rparr>) a = Inr om1"
    and rest: "make_loop X om1 names = Inr om'"
    by (cases "make_named X (om\<lparr>ob_maps := d\<rparr>) a") auto
  from make_named_same[OF om1] have s: "om1 = om\<lparr>ob_maps := ob_maps om1\<rparr>" by simp
  show ?case
  proof (cases "n \<in> set names")
    case True
    from rest s have "make_loop X (om\<lparr>ob_maps := ob_maps om1\<rparr>) names = Inr om'" by simp
    from Cons.IH[OF this True Cons.prems(3)] show ?thesis .
  next
    case False
    with Cons.prems(2) have "a = n" by simp
    from make_loop_other[OF rest False] have "map_of (ob_maps om') n = map_of (ob_maps om1) n" .
    also have "\<dots> = map_of (ob_maps om'') n"
      using make_named_value[where X = X and om = om and d = d and n = n and om' = om1 and om'' = om''] om1 Cons.prems(3) \<open>a = n\<close> by simp
    finally show ?thesis .
  qed
qed

lemma MapMakerObs_run_value:
  assumes "MapMakerObs_run X om (SelList names) = Inr moA"
    and "MapMakerObs_run X om (SelList [n]) = Inr moB"
    and "n \<in> set names"
  shows "map_of moA n = map_of moB n"
proof -
  from assms(1) obtain omA where a: "make_loop X om names = Inr omA" "moA = ob_maps omA"
    by (auto simp: MapMakerObs_run_def bind_err_eq_Inr dest: check_selection_Inr)
  from assms(2) obtain omB where b: "make_named X om n = Inr omB" "moB = ob_maps omB"
    by (auto simp: MapMakerObs_run_def bind_err_eq_Inr dest!: check_selection_Inr)
  have "make_loop X (om\<lparr>ob_maps := ob_maps om\<rparr>) names = Inr omA" using a by simp
  from make_loop_value[OF this assms(3) b(1)] a b show ?thesis by simp
qed

lemma fill_selected_needs:
  "fill_selected X om names mo ms = Inr ms' \<Longrightarrow> n \<in> set names \<Longrightarrow>
     \<exists>m_o m d. map_of mo n = Some m_o \<and> map_of ms n = Some m
        \<and> to_value X m_o (map_unit m) = Inr d"
proof (induction names arbitrary: ms)
  case Nil
  then show ?case by simp
next
  case (Cons a names)
  from Cons.prems(1) obtain m_o where mo: "dict_get mo a = Inr m_o"
    by (cases "dict_get mo a") auto
  from Cons.prems(1) mo obtain m where m: "dict_get ms a = Inr m"
    by (cases "dict_get ms a") auto
  from Cons.prems(1) mo m obtain d where d: "to_value X m_o (map_unit m) = Inr d"
    by (cases "to_value X m_o (map_unit m)") auto
  define ms1 where "ms1 = dict_set ms a (fill_by_coord m
               (concat (if a = ''exposure'' then coords_etrue om else coords om)) (concat d))"
  have rest: "fill_selected X om names mo ms1 = Inr ms'"
    using Cons.prems(1) mo m d by (simp add: ms1_def)
  show ?case
  proof (cases "a = n")
    case True
    with mo m d show ?thesis by (auto simp: dict_get_Inr)
  next
    case False
    with Cons.prems(2) have "n \<in> set names" by simp
    from Cons.IH[OF rest this] obtain m_o' m' d' where
      "map_of mo n = Some m_o'" "map_of ms1 n = Some m'" "to_value X m_o' (map_unit m') = Inr d'"
      by blast
    moreover have "map_of ms1 n = map_of ms n" using False by (simp add: ms1_def map_of_dict_set)
    ultimately show ?thesis by auto
  qed
qed

lemma loop_sim:
  assumes sub: "set names \<subseteq> set available" and n: "n \<in> set names"
  shows "MapMaker_run_loop X mk names os msA lgA = Inr (msA', lgA') \<Longrightarrow>
     wf_maps msA \<Longrightarrow> wf_maps msB \<Longrightarrow>
     map_of msA n = Some (add_fn (\<lambda>c. real (count_list names n) * H c) (from_geom g u)) \<Longrightarrow>
     map_of msB n = Some (add_fn H (from_geom g u)) \<Longrightarrow>
     \<exists>msB' lgB' H'. MapMaker_run_loop X mk [n] os msB lgB = Inr (msB', lgB')
        \<and> map_of msA' n = Some (add_fn (\<lambda>c. real (count_list names n) * H' c) (from_geom g u))
        \<and> map_of msB' n = Some (add_fn H' (from_geom g u))"
proof (induction os arbitrary: msA msB lgA lgB H)
  case Nil
  then show ?case by auto
next
  case (Cons obs os)
  define K where "K = real (count_list names n)"
  define z where "z = from_geom g u"
  note A = Cons.prems(1)
  have RA: "map_of msA n = Some (add_fn (\<lambda>c. K * H c) z)"
    using Cons.prems(4) by (simp add: K_def z_def)
  have RB: "map_of msB n = Some (add_fn H z)"
    using Cons.prems(5) by (simp add: z_def)
  show ?case
  proof (cases "get_obs_maker X mk obs Trim")
    case (Inl e)
    with A have e: "e = NoOverlapError"
      by (auto simp: Let_def split: if_splits)
    with A Inl have "MapMaker_run_loop X mk names os msA
        ((lgA @ [log_processing obs]) @ [log_no_overlap obs]) = Inr (msA', lgA')"
      by (simp add: Let_def)
    from Cons.IH[OF this Cons.prems(2,3,4,5), of "(lgB @ [log_processing obs]) @ [log_no_overlap obs]"]
    show ?thesis using Inl e by (simp add: Let_def)
  next
    case om: (Inr om)
    from MapMakerObs_run_total[OF sub, of X om] obtain moA where
      moA: "MapMakerObs_run X om (SelList names) = Inr moA" by blast
    have "set [n] \<subseteq> set available" using sub n by auto
    from MapMakerObs_run_total[OF this, of X om] obtain moB where
      moB: "MapMakerObs_run X om (SelList [n]) = Inr moB" by blast
    have same: "map_of moA n = map_of moB n"
      using moA moB n by (rule MapMakerObs_run_value)
    from A om moA obtain msA1 where
      fA: "fill_selected X om names moA msA = Inr msA1"
      and restA: "MapMaker_run_loop X mk names os msA1 (lgA @ [log_processing obs]) = Inr (msA', lgA')"
      by (cases "fill_selected X om names moA msA") (auto simp: Let_def)
    from fill_selected_needs[OF fA n] RA obtain m_o d where
      m_o: "map_of moA n = Some m_o"
      and d: "to_value X m_o (map_unit z) = Inr d"
      by auto
    define cs where "cs = concat (if n = ''exposure'' then coords_etrue om else coords om)"
    define W where "W = weight_at cs (concat d)"
    have contrib: "contribution X om moA msA n = W"
      by (rule ext) (simp add: contribution_def dict_get_def m_o RA d W_def cs_def)
    have msA1: "msA1 = shift (\<lambda>k c. real (count_list names k) * contribution X om moA msA k c) msA"
      using fA Cons.prems(2) by (rule fill_selected_is_shift)
    have A1: "map_of msA1 n = Some (add_fn (\<lambda>c. K * (H c + W c)) z)"
      by (simp add: msA1 map_of_shift RA contrib add_fn_add_fn K_def algebra_simps)
    define msB1 where "msB1 = dict_set msB n (fill_by_coord (add_fn H z) cs (concat d))"
    have m_oB: "map_of moB n = Some m_o" using same m_o by simp
    have fB: "fill_selected X om [n] moB msB = Inr msB1"
      by (simp add: dict_get_def m_oB RB d msB1_def cs_def)
    have B1: "map_of msB1 n = Some (add_fn (\<lambda>c. H c + W c) z)"
      by (simp add: msB1_def map_of_dict_set fill_by_coord_add_fn add_fn_add_fn W_def)
    have wfA1: "wf_maps msA1" using Cons.prems(2) by (simp add: msA1 wf_maps_shift)
    have "wf_map (add_fn H z)" by (simp add: z_def wf_map_add_fn wf_map_from_geom)
    then have wfB1: "wf_maps msB1"
      using Cons.prems(3) by (simp add: msB1_def fill_by_coord_add_fn wf_maps_dict_set wf_map_add_fn)
    from Cons.IH[OF restA wfA1 wfB1, of "\<lambda>c. H c + W c" "lgB @ [log_processing obs]"] A1 B1
    obtain msB' lgB' H' where
      "MapMaker_run_loop X mk [n] os msB1 (lgB @ [log_processing obs]) = Inr (msB', lgB')"
      "map_of msA' n = Some (add_fn (\<lambda>c. real (count_list names n) * H' c) (from_geom g u))"
      "map_of msB' n = Some (add_fn H' (from_geom g u))"
      by (auto simp: K_def z_def)
    then show ?thesis
      using om moB fB by (auto simp: Let_def)
  qed
qed

lemma scale_add_fn_zero:
  "scale_map k (add_fn H (from_geom g u)) = add_fn (\<lambda>c. k * H c) (from_geom g u)"
  by (simp add: add_fn_from_geom scale_map_def comp_def)

lemma get_obs_maker_Trim_geom:
  "mk_geom_true mk = PyWcsGeom g \<Longrightarrow> get_obs_maker X mk obs Trim = Inl e \<Longrightarrow> e = NoOverlapError"
  by (auto simp: get_obs_maker_def Let_def bind_err_eq_Inl obj_cutout_def map_cutout_def
      split: option.splits dest: geom_cutout_Trim_err)

lemma log_no_overlap_not_processing: "log_no_overlap obs \<noteq> log_processing ob"
  by (simp add: log_no_overlap_def log_processing_def)

lemma MapMakerObs_run_empty: "MapMakerObs_run X om (SelList []) = Inr (ob_maps om)"
  by (simp add: MapMakerObs_run_def check_selection_def)

lemma loop_empty:
  "mk_geom_true mk = PyWcsGeom g \<Longrightarrow>
     \<exists>lg'. MapMaker_run_loop X mk [] os ms lg = Inr (ms, lg @ lg')
        \<and> filter (\<lambda>e. \<exists>ob. e = log_processing ob) lg' = map log_processing os"
proof (induction os arbitrary: lg)
  case Nil
  then show ?case by simp
next
  case (Cons obs os)
  show ?case
  proof (cases "get_obs_maker X mk obs Trim")
    case (Inl e)
    with get_obs_maker_Trim_geom[OF Cons.prems Inl] have e: "get_obs_maker X mk obs Trim = Inl NoOverlapError"
      by simp
    from Cons.IH[OF Cons.prems, of "(lg @ [log_processing obs]) @ [log_no_overlap obs]"]
    obtain lg' where l: "MapMaker_run_loop X mk [] os ms ((lg @ [log_processing obs]) @ [log_no_overlap obs])
          = Inr (ms, ((lg @ [log_processing obs]) @ [log_no_overlap obs]) @ lg')"
      and f: "filter (\<lambda>e. \<exists>ob. e = log_processing ob) lg' = map log_processing os"
      by blast
    have "MapMaker_run_loop X mk [] (obs # os) ms lg
            = Inr (ms, lg @ ([log_processing obs, log_no_overlap obs] @ lg'))"
      using e l by (simp add: Let_def)
    moreover have "filter (\<lambda>e. \<exists>ob. e = log_processing ob) ([log_processing obs, log_no_overlap obs] @ lg')
            = map log_processing (obs # os)"
      using f log_no_overlap_not_processing by auto
    ultimately show ?thesis by blast
  next
    case (Inr om)
    from Cons.IH[OF Cons.prems, of "lg @ [log_processing obs]"]
    obtain lg' where l: "MapMaker_run_loop X mk [] os ms (lg @ [log_processing obs])
          = Inr (ms, (lg @ [log_processing obs]) @ lg')"
      and f: "filter (\<lambda>e. \<exists>ob. e = log_processing ob) lg' = map log_processing os"
      by blast
    have "MapMaker_run_loop X mk [] (obs # os) ms lg = Inr (ms, lg @ ([log_processing obs] @ lg'))"
      using Inr l by (simp add: Let_def MapMakerObs_run_empty)
    moreover have "filter (\<lambda>e. \<exists>ob. e = log_processing ob) ([log_processing obs] @ lg')
            = map log_processing (obs # os)"
      using f by auto
    ultimately show ?thesis by blast
  qed
qed


subsection \<open>What one observation leaves in a stacked map\<close>

lemma in_shift:
  "(k, m) \<in> set (shift F ms) \<Longrightarrow> \<exists>z. (k, z) \<in> set ms \<and> m = add_fn (F k) z"
  by (auto simp: shift_def)

lemma to_value_factor:
  "to_value X m u = Inr d \<Longrightarrow>
     \<exists>f. unit_factor X (map_unit m) u = Some f \<and> d = map (map (\<lambda>v. v * f)) (map_data m)"
  by (auto simp: to_value_def split: option.splits)

lemma single_obs_converted:
  assumes loop_a: "MapMaker_run_loop X mk names [a] ms0 [] = Inr (ma, la)"
    and ms0: "get_empty_maps mk names = Inr ms0"
    and om: "get_obs_maker X mk a Trim = Inr om"
    and mo: "MapMakerObs_run X om (SelList names) = Inr mo"
    and km: "(k, m) \<in> set ma"
  shows "\<exists>m_o f. map_of mo k = Some m_o
           \<and> unit_factor X (map_unit m_o) (map_unit m) = Some f
           \<and> map_data m =
               map (map (\<lambda>c. real (count_list names k)
                               * weight_at (concat (if k = ''exposure'' then coords_etrue om
                                                    else coords om))
                                   (concat (map (map (\<lambda>v. v * f)) (map_data m_o))) c))
                 (get_coord (map_geom m))"
proof -
  have wf: "wf_maps ms0" using ms0 by (rule get_empty_maps_wf)
  from loop_a om mo have fs: "fill_selected X om names mo ms0 = Inr ma"
    by (cases "fill_selected X om names mo ms0") (auto simp: Let_def)
  define F where "F = (\<lambda>k c. real (count_list names k) * contribution X om mo ms0 k c)"
  have ma: "ma = shift F ms0"
    unfolding F_def using fs wf by (rule fill_selected_is_shift)
  from km ma in_shift[of k m F ms0] obtain z where
    z: "(k, z) \<in> set ms0" and m: "m = add_fn (F k) z"
    by blast
  define g where "g = map_geom z"
  define u where "u = (if k = ''exposure'' then ''m2 s'' else '''')"
  have zf: "z = from_geom g u"
    unfolding g_def u_def using ms0 z by (rule get_empty_maps_entries(3))
  have mz: "map_of ms0 k = Some z"
    using get_empty_maps_entries(1)[OF ms0] z by simp
  from z get_empty_maps_entries(2)[OF ms0] have "k \<in> set names" by force
  from fill_selected_needs[OF fs this] mz obtain m_o d where
    m_o: "map_of mo k = Some m_o" and d: "to_value X m_o (map_unit z) = Inr d"
    by auto
  from to_value_factor[OF d] obtain f where
    f: "unit_factor X (map_unit m_o) (map_unit z) = Some f"
    and dd: "d = map (map (\<lambda>v. v * f)) (map_data m_o)"
    by blast
  have contrib: "contribution X om mo ms0 k c =
      weight_at (concat (if k = ''exposure'' then coords_etrue om else coords om)) (concat d) c"
    for c
    by (simp add: contribution_def dict_get_def m_o mz d)
  have mm: "m = \<lparr>map_geom = g, map_unit = u, map_data = map (map (F k)) (get_coord g)\<rparr>"
    unfolding m zf by (rule add_fn_from_geom)
  have unit_eq: "map_unit m = map_unit z" by (simp add: m)
  have geom_eq: "map_geom m = g" by (simp add: mm)
  have data: "map_data m = map (map (F k)) (get_coord (map_geom m))"
    by (simp add: mm)
  have Fk: "F k = (\<lambda>c. real (count_list names k)
                               * weight_at (concat (if k = ''exposure'' then coords_etrue om
                                                    else coords om))
                                   (concat (map (map (\<lambda>v. v * f)) (map_data m_o))) c)"
    by (rule ext) (simp only: F_def contrib dd)
  from m_o f data show ?thesis
    unfolding unit_eq Fk by blast
qed
section \<open>Allocation in the ring pipeline\<close>

text \<open>
  Claim C1 says that the map set \<^verbatim>\<open>MapMakerRing._run\<close> allocates puts "exposure_on" and
  "exposure_off" on the true-energy geometry with the unit of area times time. The
  allocation compares the key with "exposure" only, so it does not: a ring run over no
  observation returns the allocated set, and the unit of every map in it is empty.
\<close>

theorem ring_allocation_counterexample:
  "map_sum id fst (MapMakerRing_run X0 rk0 []) = Inr ring_zero_maps
   \<and> map_of ring_zero_maps ''exposure_on'' = Some zero0
   \<and> map_of ring_zero_maps ''exposure_off'' = Some zero0
   \<and> map_unit zero0 = ''''
   \<and> map_unit zero0 \<noteq> ''m2 s''"
  by code_simp

text \<open>
  Claim C1, amended. All four maps that \<^verbatim>\<open>_run\<close> allocates, "exposure_on" and
  "exposure_off" included, are zero maps on the reference (reco) geometry with the
  dimensionless unit; with \<^verbatim>\<open>sum_over_axis\<close> they are collapsed over the energy axis
  before the loop. A maker built by the ring constructor has the reference geometry as
  its true-energy geometry, so the two geometries coincide.
\<close>

theorem ring_allocation:
  "get_empty_maps rk ring_selection =
     Inr [(''on'', from_geom (mk_geom rk) ''''), (''exposure_on'', from_geom (mk_geom rk) ''''),
          (''off'', from_geom (mk_geom rk) ''''), (''exposure_off'', from_geom (mk_geom rk) '''')]
   \<and> MapMakerRing__run X rk [] sum_over_axis spectrum keepdims =
       (let maps = [(''on'', from_geom (mk_geom rk) ''''), (''exposure_on'', from_geom (mk_geom rk) ''''),
                    (''off'', from_geom (mk_geom rk) ''''), (''exposure_off'', from_geom (mk_geom rk) '''')];
            maps = (if sum_over_axis
                    then map (\<lambda>kv. (fst kv, sum_over_axes (snd kv) keepdims)) maps else maps)
        in Inr (maps, rk\<lparr>mk_maps := Some maps\<rparr>, []))
   \<and> (\<forall>geom off ex est rk'. MapMakerRing_init geom off ex est = Inr rk' \<longrightarrow>
         mk_geom_true rk' = PyWcsGeom (mk_geom rk'))"
proof -
  have alloc: "get_empty_maps rk ring_selection =
     Inr [(''on'', from_geom (mk_geom rk) ''''), (''exposure_on'', from_geom (mk_geom rk) ''''),
          (''off'', from_geom (mk_geom rk) ''''), (''exposure_off'', from_geom (mk_geom rk) '''')]"
    by (simp add: get_empty_maps_def ring_selection_def)
  have run: "MapMakerRing__run X rk [] sum_over_axis spectrum keepdims =
       (let maps = [(''on'', from_geom (mk_geom rk) ''''), (''exposure_on'', from_geom (mk_geom rk) ''''),
                    (''off'', from_geom (mk_geom rk) ''''), (''exposure_off'', from_geom (mk_geom rk) '''')];
            maps = (if sum_over_axis
                    then map (\<lambda>kv. (fst kv, sum_over_axes (snd kv) keepdims)) maps else maps)
        in Inr (maps, rk\<lparr>mk_maps := Some maps\<rparr>, []))"
    by (simp add: MapMakerRing__run_def alloc Let_def maps_sum_over_axes_def sum_one_def)
  have init: "mk_geom_true rk' = PyWcsGeom (mk_geom rk')"
    if "MapMakerRing_init geom off ex est = Inr rk'" for geom off ex est rk'
    using that
    by (cases geom)
       (auto simp: MapMakerRing_init_def MapMaker_init_def bind_err_eq_Inr
             mapmaker.defs mapmakerring.defs split: if_splits)
  from alloc run init show ?thesis by blast
qed

theorem ring_allocation_witness:
  "MapMakerRing_init (PyWcsGeom g0) (AngleLike 1) None (Some estimator0) = Inr rk0
   \<and> mk_geom_true rk0 = PyWcsGeom (mk_geom rk0)
   \<and> get_empty_maps rk0 ring_selection =
       Inr [(''on'', from_geom g0 ''''), (''exposure_on'', from_geom g0 ''''),
            (''off'', from_geom g0 ''''), (''exposure_off'', from_geom g0 '''')]"
proof -
  have i: "MapMakerRing_init (PyWcsGeom g0) (AngleLike 1) None (Some estimator0) = Inr rk0"
    by (simp add: MapMakerRing_init_def MapMaker_init_def mapmaker.defs mapmakerring.defs
        rk0_def is_image_def g0_def)
  have g: "mk_geom rk0 = g0" by (simp add: rk0_def)
  from ring_allocation[of rk0 X0 False None False] i g show ?thesis
    by simp
qed

section \<open>Field-of-view masking\<close>

text \<open>
  Claim C2. For a single observation, \<^verbatim>\<open>MapMakerObs.run\<close> succeeds on every validated
  selection, and each product it makes (counts, exposure, background) has the value 0 at
  every pixel whose separation from the pointing is greater than or equal to the maximum
  offset; the exposure is masked on the coordinates of the true-energy geometry, the
  other two on the coordinates of the reco geometry.
\<close>

theorem fov_masking:
  "check_selection selection = Inr names \<longrightarrow>
     (\<exists>maps. MapMakerObs_run X om selection = Inr maps
        \<and> (\<forall>n \<in> set names. \<exists>m. map_of maps n = Some m
              \<and> fov_zeroed X om (if n = ''exposure'' then coords_etrue om else coords om) m))"
proof
  assume sel: "check_selection selection = Inr names"
  then have "set names \<subseteq> set available" using check_selection_Inr by blast
  from make_loop_total[OF this, of X om] obtain om' where om': "make_loop X om names = Inr om'"
    by blast
  have run: "MapMakerObs_run X om selection = Inr (ob_maps om')"
    by (simp add: MapMakerObs_run_def sel om')
  have "\<exists>m. map_of (ob_maps om') n = Some m
              \<and> fov_zeroed X om (if n = ''exposure'' then coords_etrue om else coords om) m"
    if "n \<in> set names" for n
    using make_loop_zeroed[OF om'] that by blast
  with run show "\<exists>maps. MapMakerObs_run X om selection = Inr maps
        \<and> (\<forall>n \<in> set names. \<exists>m. map_of maps n = Some m
              \<and> fov_zeroed X om (if n = ''exposure'' then coords_etrue om else coords om) m)"
    by blast
qed

theorem fov_masking_witness:
  "check_selection SelNone = Inr [''counts'', ''exposure'', ''background'']
   \<and> MapMakerObs_run X0 (MapMakerObs_init obsA g0 1 None None) SelNone = Inr obs_maps_A
   \<and> fov_zeroed X0 (MapMakerObs_init obsA g0 1 None None)
        (coords (MapMakerObs_init obsA g0 1 None None)) counts_A
   \<and> map_of obs_maps_A ''counts'' = Some counts_A"
proof -
  have s: "check_selection SelNone = Inr [''counts'', ''exposure'', ''background'']"
    by code_simp
  have r: "MapMakerObs_run X0 (MapMakerObs_init obsA g0 1 None None) SelNone = Inr obs_maps_A"
    by code_simp
  have c: "map_of obs_maps_A ''counts'' = Some counts_A"
    by code_simp
  from fov_masking[of SelNone "[''counts'', ''exposure'', ''background'']" X0
      "MapMakerObs_init obsA g0 1 None None"] s r
  have "\<forall>n \<in> set [''counts'', ''exposure'', ''background'']. \<exists>m. map_of obs_maps_A n = Some m
              \<and> fov_zeroed X0 (MapMakerObs_init obsA g0 1 None None)
                   (if n = ''exposure'' then coords_etrue (MapMakerObs_init obsA g0 1 None None)
                    else coords (MapMakerObs_init obsA g0 1 None None)) m"
    by simp
  then have "\<exists>m. map_of obs_maps_A ''counts'' = Some m
              \<and> fov_zeroed X0 (MapMakerObs_init obsA g0 1 None None)
                   (coords (MapMakerObs_init obsA g0 1 None None)) m"
    by simp
  with c s r show ?thesis by simp
qed

section \<open>Stacking is additive\<close>

text \<open>
  Claim C3. Accumulation in \<^verbatim>\<open>MapMaker.run\<close> is additive and unit-correct. When the run
  over one observation succeeds, the run over the same observation twice succeeds with
  every value doubled; when a second observation with a disjoint spatial footprint has a
  successful run of its own, the run over both succeeds with the pixel-wise union of the
  two single-observation map sets; every stacked map carries the unit of the output
  map it was accumulated in; and what the observation leaves in a stacked map is the map
  of the observation maker converted to that unit: the unit of the observation's map
  converts to the unit of the stacked map by a factor, and every pixel of the stacked map
  holds, once for each occurrence of the name in the selection, the values of the
  observation's map multiplied by that factor and binned at their coordinates.
\<close>

theorem stacking_additive:
  assumes run_a: "MapMaker_run X mk [a] selection = Inr (ma, mka, la)"
  shows "(\<exists>lg. MapMaker_run X mk [a, a] selection =
            Inr (map (\<lambda>kv. (fst kv, scale_map 2 (snd kv))) ma,
                 mk\<lparr>mk_maps := Some (map (\<lambda>kv. (fst kv, scale_map 2 (snd kv))) ma)\<rparr>, lg))
       \<and> (\<forall>b mb mkb lb.
             MapMaker_run X mk [b] selection = Inr (mb, mkb, lb)
               \<and> set (footprint X mk a) \<inter> set (footprint X mk b) = {} \<longrightarrow>
             (\<exists>lg. MapMaker_run X mk [a, b] selection =
                Inr (union_maps (footprint X mk a) ma mb,
                     mk\<lparr>mk_maps := Some (union_maps (footprint X mk a) ma mb)\<rparr>, lg)))
       \<and> (\<forall>kv \<in> set ma. map_unit (snd kv) = (if fst kv = ''exposure'' then ''m2 s'' else ''''))
       \<and> (\<forall>names om mo k m.
             check_selection selection = Inr names
               \<and> get_obs_maker X mk a Trim = Inr om
               \<and> MapMakerObs_run X om (SelList names) = Inr mo
               \<and> (k, m) \<in> set ma \<longrightarrow>
             (\<exists>m_o f. map_of mo k = Some m_o
                \<and> unit_factor X (map_unit m_o) (map_unit m) = Some f
                \<and> map_data m =
                    map (map (\<lambda>c. real (count_list names k)
                                    * weight_at (concat (if k = ''exposure'' then coords_etrue om
                                                         else coords om))
                                        (concat (map (map (\<lambda>v. v * f)) (map_data m_o))) c))
                      (get_coord (map_geom m))))"
proof -
  from run_a obtain names where names: "check_selection selection = Inr names"
    by (cases "check_selection selection") (auto simp: MapMaker_run_def)
  from run_a names obtain ms0 where ms0: "get_empty_maps mk names = Inr ms0"
    by (cases "get_empty_maps mk names") (auto simp: MapMaker_run_def)
  from run_a names ms0 have loop_a: "MapMaker_run_loop X mk names [a] ms0 [] = Inr (ma, la)"
    by (cases "MapMaker_run_loop X mk names [a] ms0 []") (auto simp: MapMaker_run_def)
  have wf: "wf_maps ms0" using ms0 by (rule get_empty_maps_wf)
  have zero: "\<exists>g u. m = from_geom g u" if "(k, m) \<in> set ms0" for k m
    using get_empty_maps_entries(3)[OF ms0 that] by blast
  from loop_single_is_shift[OF loop_a wf] obtain Fa where
    Fa: "ma = shift Fa ms0" and suppa: "\<And>k c. fst c \<notin> set (footprint X mk a) \<Longrightarrow> Fa k c = 0"
    by blast
  have part1: "\<exists>lg. MapMaker_run X mk [a, a] selection =
            Inr (map (\<lambda>kv. (fst kv, scale_map 2 (snd kv))) ma,
                 mk\<lparr>mk_maps := Some (map (\<lambda>kv. (fst kv, scale_map 2 (snd kv))) ma)\<rparr>, lg)"
  proof -
    from loop_two[OF loop_a loop_a Fa] obtain l where
      "MapMaker_run_loop X mk names [a, a] ms0 [] = Inr (shift Fa ma, l)" by blast
    moreover have "shift Fa ma = map (\<lambda>kv. (fst kv, scale_map 2 (snd kv))) ma"
      unfolding Fa using zero by (rule shift_twice_zero)
    ultimately show ?thesis
      by (simp add: MapMaker_run_def names ms0)
  qed
  have part2: "\<exists>lg. MapMaker_run X mk [a, b] selection =
                Inr (union_maps (footprint X mk a) ma mb,
                     mk\<lparr>mk_maps := Some (union_maps (footprint X mk a) ma mb)\<rparr>, lg)"
    if run_b: "MapMaker_run X mk [b] selection = Inr (mb, mkb, lb)"
      and disj: "set (footprint X mk a) \<inter> set (footprint X mk b) = {}" for b mb mkb lb
  proof -
    from run_b names ms0 have loop_b: "MapMaker_run_loop X mk names [b] ms0 [] = Inr (mb, lb)"
      by (cases "MapMaker_run_loop X mk names [b] ms0 []") (auto simp: MapMaker_run_def)
    from loop_single_is_shift[OF loop_b wf] obtain Fb where
      Fb: "mb = shift Fb ms0" and suppb: "\<And>k c. fst c \<notin> set (footprint X mk b) \<Longrightarrow> Fb k c = 0"
      by blast
    have suppb': "Fb k c = 0" if "fst c \<in> set (footprint X mk a)" for k c
      using that disj suppb[of c k] by auto
    from loop_two[OF loop_a loop_b Fa] obtain l where
      "MapMaker_run_loop X mk names [a, b] ms0 [] = Inr (shift Fa mb, l)" by blast
    moreover have "union_maps (footprint X mk a) ma mb = shift Fa mb"
      unfolding Fa Fb using zero suppa suppb' by (rule shift_union_zero)
    ultimately show ?thesis
      by (simp add: MapMaker_run_def names ms0)
  qed
  have part3: "map_unit (snd kv) = (if fst kv = ''exposure'' then ''m2 s'' else '''')"
    if "kv \<in> set ma" for kv
  proof -
    from that Fa obtain k m where km: "(k, m) \<in> set ms0" and kv: "kv = (k, add_fn (Fa k) m)"
      by (auto simp: shift_def)
    have u: "map_unit (from_geom g u) = u" for g u by (simp add: from_geom_def)
    from get_empty_maps_entries(3)[OF ms0 km]
    have "map_unit m = map_unit (from_geom (map_geom m) (if k = ''exposure'' then ''m2 s'' else ''''))"
      by simp
    then have "map_unit m = (if k = ''exposure'' then ''m2 s'' else '''')"
      by (simp only: u)
    with kv show ?thesis by simp
  qed
  have part4: "\<exists>m_o f. map_of mo k = Some m_o
                \<and> unit_factor X (map_unit m_o) (map_unit m) = Some f
                \<and> map_data m =
                    map (map (\<lambda>c. real (count_list names' k)
                                    * weight_at (concat (if k = ''exposure'' then coords_etrue om
                                                         else coords om))
                                        (concat (map (map (\<lambda>v. v * f)) (map_data m_o))) c))
                      (get_coord (map_geom m))"
    if sel: "check_selection selection = Inr names'"
      and om: "get_obs_maker X mk a Trim = Inr om"
      and mo: "MapMakerObs_run X om (SelList names') = Inr mo"
      and km: "(k, m) \<in> set ma" for names' om mo k m
  proof -
    from sel names have eq: "names' = names" by simp
    from mo have mo': "MapMakerObs_run X om (SelList names) = Inr mo" by (simp only: eq)
    show ?thesis
      unfolding eq using loop_a ms0 om mo' km by (rule single_obs_converted)
  qed
  show ?thesis
  proof (intro conjI allI impI ballI)
    show "\<exists>lg. MapMaker_run X mk [a, a] selection =
            Inr (map (\<lambda>kv. (fst kv, scale_map 2 (snd kv))) ma,
                 mk\<lparr>mk_maps := Some (map (\<lambda>kv. (fst kv, scale_map 2 (snd kv))) ma)\<rparr>, lg)"
      by (rule part1)
  next
    fix b mb mkb lb
    assume "MapMaker_run X mk [b] selection = Inr (mb, mkb, lb)
               \<and> set (footprint X mk a) \<inter> set (footprint X mk b) = {}"
    then show "\<exists>lg. MapMaker_run X mk [a, b] selection =
                Inr (union_maps (footprint X mk a) ma mb,
                     mk\<lparr>mk_maps := Some (union_maps (footprint X mk a) ma mb)\<rparr>, lg)"
      using part2 by blast
  next
    fix kv assume "kv \<in> set ma"
    then show "map_unit (snd kv) = (if fst kv = ''exposure'' then ''m2 s'' else '''')"
      by (rule part3)
  next
    fix names' om mo k m
    assume h: "check_selection selection = Inr names'
               \<and> get_obs_maker X mk a Trim = Inr om
               \<and> MapMakerObs_run X om (SelList names') = Inr mo
               \<and> (k, m) \<in> set ma"
    from h have 1: "check_selection selection = Inr names'" by (rule conjunct1)
    from h have 2: "get_obs_maker X mk a Trim = Inr om" by simp
    from h have 3: "MapMakerObs_run X om (SelList names') = Inr mo" by simp
    from h have 4: "(k, m) \<in> set ma" by simp
    from 1 2 3 4 show "\<exists>m_o f. map_of mo k = Some m_o
                \<and> unit_factor X (map_unit m_o) (map_unit m) = Some f
                \<and> map_data m =
                    map (map (\<lambda>c. real (count_list names' k)
                                    * weight_at (concat (if k = ''exposure'' then coords_etrue om
                                                         else coords om))
                                        (concat (map (map (\<lambda>v. v * f)) (map_data m_o))) c))
                      (get_coord (map_geom m))"
      by (rule part4)
  qed
qed

theorem stacking_additive_witness:
  "MapMaker_run X0 mk0 [obsA] SelNone = Inr (maA, mk0\<lparr>mk_maps := Some maA\<rparr>, [log_processing obsA])
   \<and> MapMaker_run X0 mk0 [obsB] SelNone = Inr (maB, mk0\<lparr>mk_maps := Some maB\<rparr>, [log_processing obsB])
   \<and> set (footprint X0 mk0 obsA) \<inter> set (footprint X0 mk0 obsB) = {}
   \<and> (\<exists>lg. MapMaker_run X0 mk0 [obsA, obsA] SelNone =
          Inr (map (\<lambda>kv. (fst kv, scale_map 2 (snd kv))) maA,
               mk0\<lparr>mk_maps := Some (map (\<lambda>kv. (fst kv, scale_map 2 (snd kv))) maA)\<rparr>, lg))
   \<and> (\<exists>lg. MapMaker_run X0 mk0 [obsA, obsB] SelNone =
          Inr (union_maps (footprint X0 mk0 obsA) maA maB,
               mk0\<lparr>mk_maps := Some (union_maps (footprint X0 mk0 obsA) maA maB)\<rparr>, lg))
   \<and> MapMaker_run X1 mk0 [obsA] (SelList [''exposure'']) =
         Inr ([(''exposure'', stacked_exposure_m)],
              mk0\<lparr>mk_maps := Some [(''exposure'', stacked_exposure_m)]\<rparr>, [log_processing obsA])
   \<and> get_obs_maker X1 mk0 obsA Trim = Inr omA
   \<and> MapMakerObs_run X1 omA (SelList [''exposure'']) = Inr [(''exposure'', obs_exposure_cm)]
   \<and> unit_factor X1 ''cm2 s'' ''m2 s'' = Some (1 / 10000)
   \<and> (\<exists>m_o f. map_of [(''exposure'', obs_exposure_cm)] ''exposure'' = Some m_o
          \<and> unit_factor X1 (map_unit m_o) (map_unit stacked_exposure_m) = Some f
          \<and> map_data stacked_exposure_m =
              map (map (\<lambda>c. real (count_list [''exposure''] ''exposure'')
                              * weight_at (concat (if ''exposure'' = ''exposure''
                                                   then coords_etrue omA else coords omA))
                                  (concat (map (map (\<lambda>v. v * f)) (map_data m_o))) c))
                (get_coord (map_geom stacked_exposure_m)))"
proof -
  have a: "MapMaker_run X0 mk0 [obsA] SelNone = Inr (maA, mk0\<lparr>mk_maps := Some maA\<rparr>, [log_processing obsA])"
    by code_simp
  have b: "MapMaker_run X0 mk0 [obsB] SelNone = Inr (maB, mk0\<lparr>mk_maps := Some maB\<rparr>, [log_processing obsB])"
    by code_simp
  have d: "set (footprint X0 mk0 obsA) \<inter> set (footprint X0 mk0 obsB) = {}"
    by code_simp
  have e: "MapMaker_run X1 mk0 [obsA] (SelList [''exposure'']) =
         Inr ([(''exposure'', stacked_exposure_m)],
              mk0\<lparr>mk_maps := Some [(''exposure'', stacked_exposure_m)]\<rparr>, [log_processing obsA])"
    by code_simp
  have s: "check_selection (SelList [''exposure'']) = Inr [''exposure'']"
    by code_simp
  have om: "get_obs_maker X1 mk0 obsA Trim = Inr omA"
    by code_simp
  have mo: "MapMakerObs_run X1 omA (SelList [''exposure'']) = Inr [(''exposure'', obs_exposure_cm)]"
    by code_simp
  have uf: "unit_factor X1 ''cm2 s'' ''m2 s'' = Some (1 / 10000)"
    by code_simp
  have km: "(''exposure'', stacked_exposure_m) \<in> set [(''exposure'', stacked_exposure_m)]"
    by simp
  have conv: "\<exists>m_o f. map_of [(''exposure'', obs_exposure_cm)] ''exposure'' = Some m_o
          \<and> unit_factor X1 (map_unit m_o) (map_unit stacked_exposure_m) = Some f
          \<and> map_data stacked_exposure_m =
              map (map (\<lambda>c. real (count_list [''exposure''] ''exposure'')
                              * weight_at (concat (if ''exposure'' = ''exposure''
                                                   then coords_etrue omA else coords omA))
                                  (concat (map (map (\<lambda>v. v * f)) (map_data m_o))) c))
                (get_coord (map_geom stacked_exposure_m))"
    using stacking_additive[OF e] s om mo km by blast
  have add: "(\<exists>lg. MapMaker_run X0 mk0 [obsA, obsA] SelNone =
          Inr (map (\<lambda>kv. (fst kv, scale_map 2 (snd kv))) maA,
               mk0\<lparr>mk_maps := Some (map (\<lambda>kv. (fst kv, scale_map 2 (snd kv))) maA)\<rparr>, lg))
   \<and> (\<exists>lg. MapMaker_run X0 mk0 [obsA, obsB] SelNone =
          Inr (union_maps (footprint X0 mk0 obsA) maA maB,
               mk0\<lparr>mk_maps := Some (union_maps (footprint X0 mk0 obsA) maA maB)\<rparr>, lg))"
    using stacking_additive[OF a] b d by blast
  from a b d add e om mo uf conv show ?thesis by (intro conjI) (erule conjunct1 conjunct2 | assumption)+
qed
section \<open>Observations without overlap are skipped\<close>

text \<open>
  Claim C4. An observation whose cutout raises \<^verbatim>\<open>NoOverlapError\<close> is skipped by
  \<^verbatim>\<open>MapMaker.run\<close> and by \<^verbatim>\<open>MapMakerRing._run\<close>: the run over a list that contains it
  ends as the run over the list without it, with the same map set or the same error. In
  the ring pipeline, whose cutouts are strict, the same holds for an observation whose
  cutout raises \<^verbatim>\<open>PartialOverlapError\<close>. Neither run ever ends in one of the two overlap
  errors. The cutout raises \<^verbatim>\<open>NoOverlapError\<close> when the box around the pointing lies
  outside the reference geometry, and in strict mode \<^verbatim>\<open>PartialOverlapError\<close> when it
  lies partly inside.
\<close>

theorem overlap_skip_policy:
  "(get_obs_maker X mk obs Trim = Inl NoOverlapError \<longrightarrow>
      map_sum id fst (MapMaker_run X mk (pre @ obs # post) selection)
        = map_sum id fst (MapMaker_run X mk (pre @ post) selection))
   \<and> (get_obs_maker X rk obs Strict = Inl NoOverlapError
        \<or> get_obs_maker X rk obs Strict = Inl PartialOverlapError \<longrightarrow>
      map_sum id fst (MapMakerRing__run X rk (pre @ obs # post) sum_over_axis spectrum keepdims)
        = map_sum id fst (MapMakerRing__run X rk (pre @ post) sum_over_axis spectrum keepdims))
   \<and> MapMaker_run X mk os selection \<noteq> Inl NoOverlapError
   \<and> MapMaker_run X mk os selection \<noteq> Inl PartialOverlapError
   \<and> MapMakerRing__run X rk os sum_over_axis spectrum keepdims \<noteq> Inl NoOverlapError
   \<and> MapMakerRing__run X rk os sum_over_axis spectrum keepdims \<noteq> Inl PartialOverlapError
   \<and> (overlap X (mk_geom mk) (pointing_radec obs) (2 * mk_offset_max mk) = Disjoint \<longrightarrow>
        get_obs_maker X mk obs Trim = Inl NoOverlapError)
   \<and> (overlap X (mk_geom rk) (pointing_radec obs) (2 * mk_offset_max rk) = Disjoint \<longrightarrow>
        get_obs_maker X rk obs Strict = Inl NoOverlapError)
   \<and> (\<forall>g'. overlap X (mk_geom rk) (pointing_radec obs) (2 * mk_offset_max rk) = Partial g' \<longrightarrow>
        get_obs_maker X rk obs Strict = Inl PartialOverlapError)"
proof (intro conjI impI allI)
  show "map_sum id fst (MapMaker_run X mk (pre @ obs # post) selection)
        = map_sum id fst (MapMaker_run X mk (pre @ post) selection)"
    if skip: "get_obs_maker X mk obs Trim = Inl NoOverlapError"
  proof (cases "check_selection selection")
    case (Inl e)
    then show ?thesis by (simp add: MapMaker_run_def)
  next
    case sel: (Inr names)
    show ?thesis
    proof (cases "get_empty_maps mk names")
      case (Inl e)
      with sel show ?thesis by (simp add: MapMaker_run_def)
    next
      case (Inr ms0)
      have "map_sum id fst (MapMaker_run X mk xs selection)
              = map_sum id fst (MapMaker_run_loop X mk names xs ms0 [])" for xs
        by (cases "MapMaker_run_loop X mk names xs ms0 []")
           (simp_all add: MapMaker_run_def sel Inr)
      with loop_skip[OF skip, of names pre post ms0 "[]"] show ?thesis by simp
    qed
  qed
  show "map_sum id fst (MapMakerRing__run X rk (pre @ obs # post) sum_over_axis spectrum keepdims)
        = map_sum id fst (MapMakerRing__run X rk (pre @ post) sum_over_axis spectrum keepdims)"
    if skip: "get_obs_maker X rk obs Strict = Inl NoOverlapError
        \<or> get_obs_maker X rk obs Strict = Inl PartialOverlapError"
  proof (cases "get_empty_maps rk ring_selection")
    case (Inl e)
    then show ?thesis by (simp add: MapMakerRing__run_def)
  next
    case (Inr ms0)
    define ms where "ms = (if sum_over_axis then maps_sum_over_axes X ms0 spectrum keepdims else ms0)"
    have "map_sum id fst (MapMakerRing__run X rk xs sum_over_axis spectrum keepdims)
            = map_sum id fst (MapMakerRing_run_loop X rk sum_over_axis spectrum keepdims xs ms [])" for xs
      by (cases "MapMakerRing_run_loop X rk sum_over_axis spectrum keepdims xs ms []")
         (simp_all add: MapMakerRing__run_def Inr Let_def ms_def)
    with ring_loop_skip[OF skip, of sum_over_axis spectrum keepdims pre post ms "[]"]
    show ?thesis by simp
  qed
  show "MapMaker_run X mk os selection \<noteq> Inl NoOverlapError"
  proof
    assume e: "MapMaker_run X mk os selection = Inl NoOverlapError"
    from MapMaker_run_err[OF e] show False
      by (cases selection) (auto simp: check_selection_def Let_def split: option.splits if_splits)
  qed
  show "MapMaker_run X mk os selection \<noteq> Inl PartialOverlapError"
  proof
    assume e: "MapMaker_run X mk os selection = Inl PartialOverlapError"
    from MapMaker_run_err[OF e] show False
      by (cases selection) (auto simp: check_selection_def Let_def split: option.splits if_splits)
  qed
  show "MapMakerRing__run X rk os sum_over_axis spectrum keepdims \<noteq> Inl NoOverlapError"
    using MapMakerRing__run_err[of X rk os sum_over_axis spectrum keepdims NoOverlapError] by auto
  show "MapMakerRing__run X rk os sum_over_axis spectrum keepdims \<noteq> Inl PartialOverlapError"
    using MapMakerRing__run_err[of X rk os sum_over_axis spectrum keepdims PartialOverlapError] by auto
  show "get_obs_maker X mk obs Trim = Inl NoOverlapError"
    if "overlap X (mk_geom mk) (pointing_radec obs) (2 * mk_offset_max mk) = Disjoint"
    using that by (simp add: get_obs_maker_def Let_def geom_cutout_def)
  show "get_obs_maker X rk obs Strict = Inl NoOverlapError"
    if "overlap X (mk_geom rk) (pointing_radec obs) (2 * mk_offset_max rk) = Disjoint"
    using that by (simp add: get_obs_maker_def Let_def geom_cutout_def)
  show "get_obs_maker X rk obs Strict = Inl PartialOverlapError"
    if "overlap X (mk_geom rk) (pointing_radec obs) (2 * mk_offset_max rk) = Partial g'" for g'
    using that by (simp add: get_obs_maker_def Let_def geom_cutout_def)
qed

theorem overlap_skip_policy_witness:
  "get_obs_maker X0 mk0 obsC Trim = Inl NoOverlapError
   \<and> get_obs_maker X0 rk0 obsB Strict = Inl PartialOverlapError
   \<and> map_sum id fst (MapMaker_run X0 mk0 [obsA, obsC] SelNone) = Inr maA
   \<and> map_sum id fst (MapMakerRing_run X0 rk0 [obsA, obsB]) = map_sum id fst (MapMakerRing_run X0 rk0 [obsA])
   \<and> map_sum id fst (MapMaker_run X0 mk0 [obsA, obsB] SelNone) \<noteq> Inr maA"
proof -
  have c: "get_obs_maker X0 mk0 obsC Trim = Inl NoOverlapError" by code_simp
  have b: "get_obs_maker X0 rk0 obsB Strict = Inl PartialOverlapError" by code_simp
  have a: "map_sum id fst (MapMaker_run X0 mk0 [obsA] SelNone) = Inr maA" by code_simp
  have t: "map_sum id fst (MapMaker_run X0 mk0 [obsA, obsB] SelNone) \<noteq> Inr maA" by code_simp
  from overlap_skip_policy[of X0 mk0 obsC "[obsA]" "[]" SelNone rk0 False None False "[]"] c
  have "map_sum id fst (MapMaker_run X0 mk0 ([obsA] @ obsC # []) SelNone)
        = map_sum id fst (MapMaker_run X0 mk0 ([obsA] @ []) SelNone)"
    by blast
  with a have r1: "map_sum id fst (MapMaker_run X0 mk0 [obsA, obsC] SelNone) = Inr maA"
    by simp
  from overlap_skip_policy[of X0 mk0 obsB "[obsA]" "[]" SelNone rk0 False None False "[]"] b
  have "map_sum id fst (MapMakerRing__run X0 rk0 ([obsA] @ obsB # []) False None False)
        = map_sum id fst (MapMakerRing__run X0 rk0 ([obsA] @ []) False None False)"
    by blast
  then have r2: "map_sum id fst (MapMakerRing_run X0 rk0 [obsA, obsB])
        = map_sum id fst (MapMakerRing_run X0 rk0 [obsA])"
    by (simp add: MapMakerRing_run_def)
  from c b r1 r2 t show ?thesis by (intro conjI)
qed

section \<open>Selection validation\<close>

text \<open>
  Claim C5 says that a sequence containing a name outside the fixed set raises a value
  error. The check is \<^verbatim>\<open>isinstance(selection, list)\<close>: a tuple is a sequence and still
  takes the type-error branch, whatever it contains.
\<close>

theorem check_selection_counterexample:
  "check_selection (SelTuple [''flux'']) = Inl (TypeError (Text ''Selection must be a list of str''))"
  by (simp add: check_selection_def)

text \<open>
  Claim C5, amended. In \<^verbatim>\<open>MapMaker.run\<close> and \<^verbatim>\<open>MapMakerObs.run\<close> a selection of
  \<^verbatim>\<open>None\<close> is replaced by the three products; a selection that is neither \<^verbatim>\<open>None\<close>
  nor a list (the bare string "counts", a tuple) raises the type error; a list with a name
  outside the fixed set raises the value error naming the first such name; a list of
  names of the set is returned as it is. Both methods raise what the validation raises.
\<close>

theorem check_selection_contract:
  "check_selection SelNone = Inr [''counts'', ''exposure'', ''background'']
   \<and> MapMaker_run X mk os SelNone = MapMaker_run X mk os (SelList [''counts'', ''exposure'', ''background''])
   \<and> MapMakerObs_run X om SelNone = MapMakerObs_run X om (SelList [''counts'', ''exposure'', ''background''])
   \<and> (selection \<noteq> SelNone \<and> (\<forall>names. selection \<noteq> SelList names) \<longrightarrow>
        check_selection selection = Inl (TypeError (Text ''Selection must be a list of str'')))
   \<and> (\<not> set names \<subseteq> {''counts'', ''exposure'', ''background''} \<longrightarrow>
        (\<exists>pre name post. names = pre @ name # post
           \<and> set pre \<subseteq> {''counts'', ''exposure'', ''background''}
           \<and> name \<notin> {''counts'', ''exposure'', ''background''}
           \<and> check_selection (SelList names) =
               Inl (ValueError (Format ''Selection not available: {!r}'' (StrArg name)))))
   \<and> (set names \<subseteq> {''counts'', ''exposure'', ''background''} \<longrightarrow>
        check_selection (SelList names) = Inr names)
   \<and> (\<forall>e. check_selection selection = Inl e \<longrightarrow>
        MapMaker_run X mk os selection = Inl e \<and> MapMakerObs_run X om selection = Inl e)"
proof -
  have av: "set available = {''counts'', ''exposure'', ''background''}"
    by (auto simp: available_def)
  have none: "check_selection SelNone = Inr [''counts'', ''exposure'', ''background'']"
    by (simp add: check_selection_def available_def)
  have lst: "check_selection (SelList [''counts'', ''exposure'', ''background''])
               = Inr [''counts'', ''exposure'', ''background'']"
    by (simp add: check_selection_def available_def)
  have run: "MapMaker_run X mk os SelNone
               = MapMaker_run X mk os (SelList [''counts'', ''exposure'', ''background''])"
    by (simp only: MapMaker_run_def none lst)
  have obs: "MapMakerObs_run X om SelNone
               = MapMakerObs_run X om (SelList [''counts'', ''exposure'', ''background''])"
    by (simp only: MapMakerObs_run_def none lst)
  have ty: "check_selection selection = Inl (TypeError (Text ''Selection must be a list of str''))"
    if "selection \<noteq> SelNone" "\<forall>names. selection \<noteq> SelList names"
    using that by (cases selection) (auto simp: check_selection_def)
  have bad: "\<exists>pre name post. names = pre @ name # post
           \<and> set pre \<subseteq> {''counts'', ''exposure'', ''background''}
           \<and> name \<notin> {''counts'', ''exposure'', ''background''}
           \<and> check_selection (SelList names) =
               Inl (ValueError (Format ''Selection not available: {!r}'' (StrArg name)))"
    if "\<not> set names \<subseteq> {''counts'', ''exposure'', ''background''}"
  proof -
    from that av first_unavailable_None[of names] obtain n where n: "first_unavailable names = Some n"
      by (cases "first_unavailable names") auto
    from first_unavailable_first[OF n] obtain pre post where
      pp: "names = pre @ n # post \<and> set pre \<subseteq> set available \<and> n \<notin> set available" by blast
    have cs: "check_selection (SelList names) =
               Inl (ValueError (Format ''Selection not available: {!r}'' (StrArg n)))"
      using n by (simp add: check_selection_def)
    have "names = pre @ n # post
           \<and> set pre \<subseteq> {''counts'', ''exposure'', ''background''}
           \<and> n \<notin> {''counts'', ''exposure'', ''background''}
           \<and> check_selection (SelList names) =
               Inl (ValueError (Format ''Selection not available: {!r}'' (StrArg n)))"
      using pp cs unfolding av by simp
    then show ?thesis
      by - (rule exI[of _ pre], rule exI[of _ n], rule exI[of _ post], assumption)
  qed
  have good: "check_selection (SelList names) = Inr names"
    if "set names \<subseteq> {''counts'', ''exposure'', ''background''}"
    using that av check_selection_list_ok[of names] by simp
  have propagate: "MapMaker_run X mk os selection = Inl e \<and> MapMakerObs_run X om selection = Inl e"
    if "check_selection selection = Inl e" for e
    using that by (simp add: MapMaker_run_def MapMakerObs_run_def)
  show ?thesis
  proof (intro conjI impI allI)
    show "check_selection SelNone = Inr [''counts'', ''exposure'', ''background'']"
      by (rule none)
    show "MapMaker_run X mk os SelNone
            = MapMaker_run X mk os (SelList [''counts'', ''exposure'', ''background''])"
      by (rule run)
    show "MapMakerObs_run X om SelNone
            = MapMakerObs_run X om (SelList [''counts'', ''exposure'', ''background''])"
      by (rule obs)
    show "check_selection selection = Inl (TypeError (Text ''Selection must be a list of str''))"
      if "selection \<noteq> SelNone \<and> (\<forall>names. selection \<noteq> SelList names)"
      using that ty by simp
    show "\<exists>pre name post. names = pre @ name # post
           \<and> set pre \<subseteq> {''counts'', ''exposure'', ''background''}
           \<and> name \<notin> {''counts'', ''exposure'', ''background''}
           \<and> check_selection (SelList names) =
               Inl (ValueError (Format ''Selection not available: {!r}'' (StrArg name)))"
      if "\<not> set names \<subseteq> {''counts'', ''exposure'', ''background''}"
      using that by (rule bad)
    show "check_selection (SelList names) = Inr names"
      if "set names \<subseteq> {''counts'', ''exposure'', ''background''}"
      using that by (rule good)
    show "MapMaker_run X mk os selection = Inl e"
      if "check_selection selection = Inl e" for e
      using propagate[OF that] by simp
    show "MapMakerObs_run X om selection = Inl e"
      if "check_selection selection = Inl e" for e
      using propagate[OF that] by simp
  qed
qed

theorem check_selection_contract_witness:
  "check_selection (SelStr ''counts'') = Inl (TypeError (Text ''Selection must be a list of str''))
   \<and> check_selection (SelList [''flux'']) =
       Inl (ValueError (Format ''Selection not available: {!r}'' (StrArg ''flux'')))
   \<and> check_selection (SelList [''counts'', ''background'']) = Inr [''counts'', ''background'']
   \<and> MapMaker_run X0 mk0 [obsA] (SelStr ''counts'') = Inl (TypeError (Text ''Selection must be a list of str''))
   \<and> MapMakerObs_run X0 (MapMakerObs_init obsA g0 1 None None) (SelStr ''counts'')
       = Inl (TypeError (Text ''Selection must be a list of str''))"
proof -
  have s: "SelStr ''counts'' \<noteq> SelNone \<and> (\<forall>names. SelStr ''counts'' \<noteq> SelList names)"
    by simp
  have b: "\<not> set [''flux''] \<subseteq> {''counts'', ''exposure'', ''background''}"
    by simp
  have g: "set [''counts'', ''background''] \<subseteq> {''counts'', ''exposure'', ''background''}"
    by simp
  note c1 = check_selection_contract[of X0 mk0 "[obsA]" "MapMakerObs_init obsA g0 1 None None"
      "SelStr ''counts''" "[''flux'']"]
  note c2 = check_selection_contract[of X0 mk0 "[obsA]" "MapMakerObs_init obsA g0 1 None None"
      "SelStr ''counts''" "[''counts'', ''background'']"]
  from c1 s have t: "check_selection (SelStr ''counts'') = Inl (TypeError (Text ''Selection must be a list of str''))"
    by blast
  from c1 b obtain pre name post where
    p: "[''flux''] = pre @ name # post"
    and v: "check_selection (SelList [''flux'']) =
               Inl (ValueError (Format ''Selection not available: {!r}'' (StrArg name)))"
    by blast
  from p have "name = ''flux''" by (cases pre) auto
  with v have v': "check_selection (SelList [''flux'']) =
               Inl (ValueError (Format ''Selection not available: {!r}'' (StrArg ''flux'')))"
    by simp
  from c2 g have ok: "check_selection (SelList [''counts'', ''background'']) = Inr [''counts'', ''background'']"
    by blast
  from c1 t have "MapMaker_run X0 mk0 [obsA] (SelStr ''counts'') = Inl (TypeError (Text ''Selection must be a list of str''))
     \<and> MapMakerObs_run X0 (MapMakerObs_init obsA g0 1 None None) (SelStr ''counts'')
       = Inl (TypeError (Text ''Selection must be a list of str''))"
    by blast
  with t v' ok show ?thesis by blast
qed


section \<open>The constructor\<close>

text \<open>
  Claim C6, as stated, says that the constructor of \<^verbatim>\<open>MapMaker\<close> succeeds whenever the
  reference geometry is a \<^verbatim>\<open>WcsGeom\<close> with an energy axis. It does not: with such a
  geometry and no true-energy geometry, an offset that \<^verbatim>\<open>Angle\<close> rejects makes the
  constructor raise the exception of \<^verbatim>\<open>Angle\<close>.
\<close>

theorem MapMaker_init_counterexample:
  "MapMaker_init (PyWcsGeom g0) bare_number PyNone None = Inl UnitTypeError
   \<and> \<not> is_image g0"
  by (simp add: MapMaker_init_def is_image_def g0_def bare_number_def)

text \<open>
  Claim C6, amended. The constructor of \<^verbatim>\<open>MapMaker\<close> fails with a \<^verbatim>\<open>ValueError\<close> whenever
  the reference geometry is not a \<^verbatim>\<open>WcsGeom\<close> or is image-only, whatever the other
  arguments are. For a reference geometry that is a \<^verbatim>\<open>WcsGeom\<close> with an energy axis it
  raises what the truth test of \<^verbatim>\<open>geom_true\<close> raises, if that raises; otherwise what
  \<^verbatim>\<open>Angle(offset_max)\<close> raises, if that raises; and otherwise it succeeds, with the
  geometry, the angle and the exclusion mask stored, no maps, and \<^verbatim>\<open>geom_true\<close> stored
  when it is true and the reference geometry in its place when it is not. So it succeeds
  exactly when the reference geometry passes both checks, the truth test of \<^verbatim>\<open>geom_true\<close>
  returns and \<^verbatim>\<open>Angle\<close> accepts the offset; and when no true-energy geometry is given, the
  reference geometry takes its place.
\<close>

theorem MapMaker_init_contract:
  "(\<not> (\<exists>g. geom = PyWcsGeom g \<and> \<not> is_image g) \<longrightarrow>
      (\<exists>msg. MapMaker_init geom off gt ex = Inl (ValueError msg)))
   \<and> (\<forall>g. geom = PyWcsGeom g \<and> \<not> is_image g \<longrightarrow>
        (\<forall>e. truthy gt = Inl e \<longrightarrow> MapMaker_init geom off gt ex = Inl e)
      \<and> (\<forall>b e. truthy gt = Inr b \<and> Angle off = Inl e \<longrightarrow>
            MapMaker_init geom off gt ex = Inl e)
      \<and> (\<forall>b a. truthy gt = Inr b \<and> Angle off = Inr a \<longrightarrow>
            MapMaker_init geom off gt ex =
              Inr \<lparr>mk_geom = g, mk_geom_true = (if b then gt else geom), mk_offset_max = a,
                   mk_exclusion_mask = ex, mk_maps = None\<rparr>))
   \<and> ((\<exists>mk. MapMaker_init geom off gt ex = Inr mk) \<longleftrightarrow>
        (\<exists>g. geom = PyWcsGeom g \<and> \<not> is_image g)
        \<and> (\<exists>b. truthy gt = Inr b) \<and> (\<exists>a. Angle off = Inr a))
   \<and> (\<forall>mk. MapMaker_init geom off PyNone ex = Inr mk \<longrightarrow>
         PyWcsGeom (mk_geom mk) = geom \<and> mk_geom_true mk = geom)"
proof (intro conjI allI impI)
  assume "\<not> (\<exists>g. geom = PyWcsGeom g \<and> \<not> is_image g)"
  then show "\<exists>msg. MapMaker_init geom off gt ex = Inl (ValueError msg)"
    by (cases geom) (auto simp: MapMaker_init_def)
next
  fix g e
  assume "geom = PyWcsGeom g \<and> \<not> is_image g" and "truthy gt = Inl e"
  then show "MapMaker_init geom off gt ex = Inl e"
    by (simp add: MapMaker_init_def)
next
  fix g b e
  assume "geom = PyWcsGeom g \<and> \<not> is_image g" and "truthy gt = Inr b \<and> Angle off = Inl e"
  then show "MapMaker_init geom off gt ex = Inl e"
    by (simp add: MapMaker_init_def)
next
  fix g b a
  assume "geom = PyWcsGeom g \<and> \<not> is_image g" and "truthy gt = Inr b \<and> Angle off = Inr a"
  then show "MapMaker_init geom off gt ex =
              Inr \<lparr>mk_geom = g, mk_geom_true = (if b then gt else geom), mk_offset_max = a,
                   mk_exclusion_mask = ex, mk_maps = None\<rparr>"
    by (simp add: MapMaker_init_def)
next
  show "(\<exists>mk. MapMaker_init geom off gt ex = Inr mk) \<longleftrightarrow>
        (\<exists>g. geom = PyWcsGeom g \<and> \<not> is_image g)
        \<and> (\<exists>b. truthy gt = Inr b) \<and> (\<exists>a. Angle off = Inr a)"
    by (cases geom; cases "truthy gt"; cases "Angle off") (simp_all add: MapMaker_init_def)
next
  fix mk
  assume init: "MapMaker_init geom off PyNone ex = Inr mk"
  then have "PyWcsGeom (mk_geom mk) = geom \<and> mk_geom_true mk = geom"
    by (cases geom; cases "Angle off") (auto simp: MapMaker_init_def split: if_splits)
  then show "PyWcsGeom (mk_geom mk) = geom" and "mk_geom_true mk = geom"
    by simp_all
qed

theorem MapMaker_init_contract_witness:
  "MapMaker_init (PyWcsGeom g0) (AngleLike 1) PyNone None = Inr mk0
   \<and> PyWcsGeom (mk_geom mk0) = PyWcsGeom g0 \<and> mk_geom_true mk0 = PyWcsGeom g0
   \<and> (\<exists>msg. MapMaker_init (PyWcsGeom (g0\<lparr>axes := []\<rparr>)) (AngleLike 1) PyNone None
               = Inl (ValueError msg))
   \<and> (\<exists>msg. MapMaker_init (PyOther True) bare_number array_like None
               = Inl (ValueError msg))
   \<and> MapMaker_init (PyWcsGeom g0) bare_number array_like None
       = Inl (ValueError (Text ''The truth value of an array with more than one element is ambiguous. Use a.any() or a.all()''))
   \<and> MapMaker_init (PyWcsGeom g0) bare_number (PyOther True) None
       = Inl UnitTypeError
   \<and> MapMaker_init (PyWcsGeom g0) (AngleLike 2) (PyOther True) None
       = Inr \<lparr>mk_geom = g0, mk_geom_true = PyOther True, mk_offset_max = 2,
              mk_exclusion_mask = None, mk_maps = None\<rparr>"
proof -
  have valid: "PyWcsGeom g0 = PyWcsGeom g0 \<and> \<not> is_image g0"
    by (simp add: is_image_def g0_def)
  have img: "\<not> (\<exists>g. PyWcsGeom (g0\<lparr>axes := []\<rparr>) = PyWcsGeom g \<and> \<not> is_image g)"
    by (simp add: is_image_def)
  have oth: "\<not> (\<exists>g. PyOther True = PyWcsGeom g \<and> \<not> is_image g)"
    by simp
  have t0: "truthy PyNone = Inr False \<and> Angle (AngleLike 1) = Inr 1" by simp
  have t1: "truthy array_like = Inl (ValueError (Text ''The truth value of an array with more than one element is ambiguous. Use a.any() or a.all()''))"
    by (simp add: array_like_def)
  have t2: "truthy (PyOther True) = Inr True \<and> Angle bare_number = Inl UnitTypeError"
    by (simp add: bare_number_def)
  have t3: "truthy (PyOther True) = Inr True \<and> Angle (AngleLike 2) = Inr 2" by simp
  from MapMaker_init_contract[of "PyWcsGeom g0" "AngleLike 1" PyNone None] valid t0
  have "MapMaker_init (PyWcsGeom g0) (AngleLike 1) PyNone None =
          Inr \<lparr>mk_geom = g0, mk_geom_true = (if False then PyNone else PyWcsGeom g0),
               mk_offset_max = 1, mk_exclusion_mask = None, mk_maps = None\<rparr>"
    by blast
  then have ok: "MapMaker_init (PyWcsGeom g0) (AngleLike 1) PyNone None = Inr mk0"
    by (simp add: mk0_def)
  from MapMaker_init_contract[of "PyWcsGeom g0" "AngleLike 1" PyNone None] ok
  have dflt: "PyWcsGeom (mk_geom mk0) = PyWcsGeom g0 \<and> mk_geom_true mk0 = PyWcsGeom g0"
    by blast
  from MapMaker_init_contract[of "PyWcsGeom (g0\<lparr>axes := []\<rparr>)" "AngleLike 1" PyNone None] img
  have i: "\<exists>msg. MapMaker_init (PyWcsGeom (g0\<lparr>axes := []\<rparr>)) (AngleLike 1) PyNone None
               = Inl (ValueError msg)"
    by blast
  from MapMaker_init_contract[of "PyOther True" bare_number array_like None] oth
  have ot: "\<exists>msg. MapMaker_init (PyOther True) bare_number array_like None
               = Inl (ValueError msg)"
    by blast
  from MapMaker_init_contract[of "PyWcsGeom g0" bare_number array_like None]
    valid t1
  have e1: "MapMaker_init (PyWcsGeom g0) bare_number array_like None
       = Inl (ValueError (Text ''The truth value of an array with more than one element is ambiguous. Use a.any() or a.all()''))"
    by blast
  from MapMaker_init_contract[of "PyWcsGeom g0" bare_number "PyOther True" None]
    valid t2
  have e2: "MapMaker_init (PyWcsGeom g0) bare_number (PyOther True) None
       = Inl UnitTypeError"
    by blast
  from MapMaker_init_contract[of "PyWcsGeom g0" "AngleLike 2" "PyOther True" None] valid t3
  have "MapMaker_init (PyWcsGeom g0) (AngleLike 2) (PyOther True) None
       = Inr \<lparr>mk_geom = g0, mk_geom_true = (if True then PyOther True else PyWcsGeom g0),
              mk_offset_max = 2, mk_exclusion_mask = None, mk_maps = None\<rparr>"
    by blast
  then have e3: "MapMaker_init (PyWcsGeom g0) (AngleLike 2) (PyOther True) None
       = Inr \<lparr>mk_geom = g0, mk_geom_true = PyOther True, mk_offset_max = 2,
              mk_exclusion_mask = None, mk_maps = None\<rparr>"
    by simp
  from ok dflt i ot e1 e2 e3 show ?thesis by simp
qed
section \<open>Images need a prior run or observations\<close>

text \<open>
  Claim C7. \<^verbatim>\<open>MapMaker.run_images\<close> raises a \<^verbatim>\<open>ValueError\<close> if and only if the maker
  holds no map set of a prior run and no observations are supplied. When a map set is
  stored, it is the one collapsed, whatever observations are supplied; otherwise
  \<^verbatim>\<open>run\<close> is called on the observations with the default selection and its result is
  collapsed. A fresh maker holds no map set, and a successful \<^verbatim>\<open>run\<close> stores its result.
\<close>

theorem run_images_prior_state:
  "((\<exists>msg. MapMaker_run_images X mk observations spectrum keepdims = Inl (ValueError msg))
       \<longleftrightarrow> mk_maps mk = None \<and> observations = None)
   \<and> (mk_maps mk = None \<and> observations = None \<longrightarrow>
        MapMaker_run_images X mk observations spectrum keepdims
          = Inl (ValueError (Text ''Requires observations...'')))
   \<and> (\<forall>maps. mk_maps mk = Some maps \<longrightarrow>
        MapMaker_run_images X mk observations spectrum keepdims
          = Inr (maps_sum_over_axes X maps spectrum keepdims, mk, []))
   \<and> (\<forall>obs. mk_maps mk = None \<and> observations = Some obs \<longrightarrow>
        MapMaker_run_images X mk observations spectrum keepdims =
          (case MapMaker_run X mk obs SelNone of
             Inl e \<Rightarrow> Inl e
           | Inr r \<Rightarrow> Inr (maps_sum_over_axes X (fst r) spectrum keepdims, fst (snd r), snd (snd r))))
   \<and> (\<forall>geom off gt ex mk'. MapMaker_init geom off gt ex = Inr mk' \<longrightarrow> mk_maps mk' = None)
   \<and> (\<forall>os sel maps mk' lg. MapMaker_run X mk os sel = Inr (maps, mk', lg) \<longrightarrow>
        mk_maps mk' = Some maps)"
proof (intro conjI allI impI)
  show "(\<exists>msg. MapMaker_run_images X mk observations spectrum keepdims = Inl (ValueError msg))
       \<longleftrightarrow> mk_maps mk = None \<and> observations = None"
  proof
    assume "\<exists>msg. MapMaker_run_images X mk observations spectrum keepdims = Inl (ValueError msg)"
    then obtain msg where f: "MapMaker_run_images X mk observations spectrum keepdims = Inl (ValueError msg)"
      by blast
    show "mk_maps mk = None \<and> observations = None"
    proof (rule ccontr)
      assume n: "\<not> (mk_maps mk = None \<and> observations = None)"
      show False
      proof (cases "mk_maps mk")
        case (Some maps)
        with f show False by (simp add: MapMaker_run_images_def)
      next
        case None
        with n obtain obs where obs: "observations = Some obs" by auto
        from f None obs have "MapMaker_run X mk obs SelNone = Inl (ValueError msg)"
          by (cases "MapMaker_run X mk obs SelNone")
             (auto simp: MapMaker_run_images_def split: prod.splits)
        from MapMaker_run_err[OF this] show False
          by (simp add: check_selection_def available_def)
      qed
    qed
  next
    assume "mk_maps mk = None \<and> observations = None"
    then show "\<exists>msg. MapMaker_run_images X mk observations spectrum keepdims = Inl (ValueError msg)"
      by (simp add: MapMaker_run_images_def)
  qed
  show "MapMaker_run_images X mk observations spectrum keepdims
          = Inl (ValueError (Text ''Requires observations...''))"
    if "mk_maps mk = None \<and> observations = None"
    using that by (simp add: MapMaker_run_images_def)
  show "MapMaker_run_images X mk observations spectrum keepdims
          = Inr (maps_sum_over_axes X maps spectrum keepdims, mk, [])"
    if "mk_maps mk = Some maps" for maps
    using that by (simp add: MapMaker_run_images_def)
  show "MapMaker_run_images X mk observations spectrum keepdims =
          (case MapMaker_run X mk obs SelNone of
             Inl e \<Rightarrow> Inl e
           | Inr r \<Rightarrow> Inr (maps_sum_over_axes X (fst r) spectrum keepdims, fst (snd r), snd (snd r)))"
    if "mk_maps mk = None \<and> observations = Some obs" for obs
    using that
    by (cases "MapMaker_run X mk obs SelNone")
       (auto simp: MapMaker_run_images_def split: prod.splits)
  show "mk_maps mk' = None" if "MapMaker_init geom off gt ex = Inr mk'" for geom off gt ex mk'
    using that by (cases geom) (auto simp: MapMaker_init_def bind_err_eq_Inr split: if_splits)
  show "mk_maps mk' = Some maps" if "MapMaker_run X mk os sel = Inr (maps, mk', lg)"
    for os sel maps mk' lg
    using that by (auto simp: MapMaker_run_def bind_err_eq_Inr)
qed

theorem run_images_prior_state_witness:
  "mk_maps mk0 = None
   \<and> MapMaker_run_images X0 mk0 None None False = Inl (ValueError (Text ''Requires observations...''))
   \<and> mk_maps (mk0\<lparr>mk_maps := Some maA\<rparr>) = Some maA
   \<and> MapMaker_run_images X0 (mk0\<lparr>mk_maps := Some maA\<rparr>) (Some [obsB]) None False
       = Inr (maps_sum_over_axes X0 maA None False, mk0\<lparr>mk_maps := Some maA\<rparr>, [])
   \<and> MapMaker_run X0 mk0 [obsA] SelNone = Inr (maA, mk0\<lparr>mk_maps := Some maA\<rparr>, [log_processing obsA])
   \<and> MapMaker_run_images X0 mk0 (Some [obsA]) None False
       = Inr (maps_sum_over_axes X0 maA None False, mk0\<lparr>mk_maps := Some maA\<rparr>, [log_processing obsA])"
proof -
  have n: "mk_maps mk0 = None" by (simp add: mk0_def)
  have s: "mk_maps (mk0\<lparr>mk_maps := Some maA\<rparr>) = Some maA" by simp
  have a: "MapMaker_run X0 mk0 [obsA] SelNone = Inr (maA, mk0\<lparr>mk_maps := Some maA\<rparr>, [log_processing obsA])"
    by code_simp
  from run_images_prior_state[of X0 mk0 None None False] n
  have f: "MapMaker_run_images X0 mk0 None None False = Inl (ValueError (Text ''Requires observations...''))"
    by blast
  from run_images_prior_state[of X0 "mk0\<lparr>mk_maps := Some maA\<rparr>" "Some [obsB]" None False] s
  have r: "MapMaker_run_images X0 (mk0\<lparr>mk_maps := Some maA\<rparr>) (Some [obsB]) None False
       = Inr (maps_sum_over_axes X0 maA None False, mk0\<lparr>mk_maps := Some maA\<rparr>, [])"
    by blast
  from run_images_prior_state[of X0 mk0 "Some [obsA]" None False] n
  have "MapMaker_run_images X0 mk0 (Some [obsA]) None False =
          (case MapMaker_run X0 mk0 [obsA] SelNone of
             Inl e \<Rightarrow> Inl e
           | Inr r \<Rightarrow> Inr (maps_sum_over_axes X0 (fst r) None False, fst (snd r), snd (snd r)))"
    by blast
  then have c: "MapMaker_run_images X0 mk0 (Some [obsA]) None False
       = Inr (maps_sum_over_axes X0 maA None False, mk0\<lparr>mk_maps := Some maA\<rparr>, [log_processing obsA])"
    by (simp add: a)
  from n f s r a c show ?thesis by (intro conjI)
qed

section \<open>Collapsing the energy axis\<close>

text \<open>
  Claim C8. For every state of the maker and every argument, \<^verbatim>\<open>run_images\<close> with
  \<^verbatim>\<open>keepdims=True\<close>, followed by the sum of every image over its remaining axis of
  length one, gives the images of \<^verbatim>\<open>run_images\<close> with \<^verbatim>\<open>keepdims=False\<close>, for every
  key, the spectrum-weighted exposure included; when one of the two calls raises, the
  other raises the same error.
\<close>

theorem keepdims_collapse:
  "map_sum id (\<lambda>r. map (\<lambda>kv. (fst kv, sum_over_axes (snd kv) False)) (fst r))
       (MapMaker_run_images X mk observations spectrum True)
     = map_sum id fst (MapMaker_run_images X mk observations spectrum False)"
proof (cases "mk_maps mk")
  case (Some maps)
  then show ?thesis
    by (simp add: MapMaker_run_images_def maps_sum_over_axes_twice)
next
  case None
  show ?thesis
  proof (cases observations)
    case no: None
    with None show ?thesis by (simp add: MapMaker_run_images_def)
  next
    case (Some obs)
    show ?thesis
    proof (cases "MapMaker_run X mk obs SelNone")
      case (Inl e)
      with None Some show ?thesis by (simp add: MapMaker_run_images_def)
    next
      case (Inr r)
      obtain maps mk' lg where r: "r = (maps, mk', lg)" by (cases r)
      with None Some Inr show ?thesis
        by (simp add: MapMaker_run_images_def maps_sum_over_axes_twice)
    qed
  qed
qed

section \<open>Duplicate names and the empty selection\<close>

text \<open>
  Claim C9. The validation accepts a list of product names with repetitions, and the
  empty list. In a successful \<^verbatim>\<open>MapMaker.run\<close> the stacked map of a selected name is
  the stacked map of the run that selects this name once, multiplied by the number of
  times the name occurs in the selection; that run succeeds too. With the empty list and
  a true-energy geometry that is a geometry, \<^verbatim>\<open>run\<close> returns the empty map set and still
  logs the processing of every observation, in order.
\<close>

theorem duplicate_and_empty_selection:
  "(set names \<subseteq> {''counts'', ''exposure'', ''background''} \<longrightarrow>
      check_selection (SelList names) = Inr names)
   \<and> check_selection (SelList [''counts'', ''counts'']) = Inr [''counts'', ''counts'']
   \<and> check_selection (SelList []) = Inr []
   \<and> (\<forall>maps mk1 lg1.
         n \<in> set names \<and> MapMaker_run X mk os (SelList names) = Inr (maps, mk1, lg1) \<longrightarrow>
         (\<exists>maps' mk2 lg2 m.
            MapMaker_run X mk os (SelList [n]) = Inr (maps', mk2, lg2)
            \<and> map_of maps' n = Some m
            \<and> map_of maps n = Some (scale_map (real (count_list names n)) m)))
   \<and> ((\<exists>g. mk_geom_true mk = PyWcsGeom g) \<longrightarrow>
        (\<exists>lg. MapMaker_run X mk os (SelList []) = Inr ([], mk\<lparr>mk_maps := Some []\<rparr>, lg)
           \<and> filter (\<lambda>e. \<exists>ob. e = log_processing ob) lg = map log_processing os))"
proof (intro conjI impI allI)
  have av: "set available = {''counts'', ''exposure'', ''background''}"
    by (auto simp: available_def)
  show "check_selection (SelList names) = Inr names"
    if "set names \<subseteq> {''counts'', ''exposure'', ''background''}"
    using that av check_selection_list_ok[of names] by simp
  show "check_selection (SelList [''counts'', ''counts'']) = Inr [''counts'', ''counts'']"
    by (simp add: check_selection_def available_def)
  show "check_selection (SelList []) = Inr []"
    by (simp add: check_selection_def)
  show "\<exists>maps' mk2 lg2 m.
            MapMaker_run X mk os (SelList [n]) = Inr (maps', mk2, lg2)
            \<and> map_of maps' n = Some m
            \<and> map_of maps n = Some (scale_map (real (count_list names n)) m)"
    if h: "n \<in> set names \<and> MapMaker_run X mk os (SelList names) = Inr (maps, mk1, lg1)"
    for maps mk1 lg1
  proof -
    from h have n: "n \<in> set names"
      and run: "MapMaker_run X mk os (SelList names) = Inr (maps, mk1, lg1)" by auto
    from run obtain names' where "check_selection (SelList names) = Inr names'"
      by (cases "check_selection (SelList names)") (auto simp: MapMaker_run_def)
    with check_selection_Inr[OF this] have sel: "check_selection (SelList names) = Inr names"
      and sub: "set names \<subseteq> set available" by auto
    from run sel obtain msA where msA: "get_empty_maps mk names = Inr msA"
      by (cases "get_empty_maps mk names") (auto simp: MapMaker_run_def)
    from run sel msA have loopA: "MapMaker_run_loop X mk names os msA [] = Inr (maps, lg1)"
      by (cases "MapMaker_run_loop X mk names os msA []") (auto simp: MapMaker_run_def)
    have lA: "get_empty_maps_loop mk names [] = Inr msA"
      using msA by (simp add: get_empty_maps_def)
    from get_empty_maps_entries(2)[OF msA] n have "n \<in> fst ` set msA" by simp
    then obtain z where z: "map_of msA n = Some z"
      by (cases "map_of msA n") (auto simp: map_of_eq_None_iff)
    from z have "(n, z) \<in> set msA" by (rule map_of_SomeD)
    from get_empty_maps_entries(3)[OF msA this] obtain g u where zg: "z = from_geom g u"
      by blast
    have gt: "n = ''exposure'' \<Longrightarrow> mk_geom_true mk = PyWcsGeom g \<and> u = ''m2 s''"
      and gr: "n \<noteq> ''exposure'' \<Longrightarrow> mk_geom mk = g \<and> u = ''''"
      using get_empty_maps_loop_map_of[OF lA, of n] n z zg
      by (auto simp: from_geom_def split: pyobj.splits)
    have seln: "check_selection (SelList [n]) = Inr [n]"
      using sub n check_selection_list_ok[of "[n]"] by auto
    have msB: "get_empty_maps mk [n] = Inr [(n, z)]"
      using gt gr zg by (cases "n = ''exposure''") (auto simp: get_empty_maps_def from_geom_obj_def)
    have wfA: "wf_maps msA" using msA by (rule get_empty_maps_wf)
    have wfB: "wf_maps [(n, z)]" using msB by (rule get_empty_maps_wf)
    have z0: "add_fn (\<lambda>c. 0) z = z"
      by (simp add: zg add_fn_zero wf_map_from_geom)
    have RA: "map_of msA n = Some (add_fn (\<lambda>c. real (count_list names n) * (\<lambda>c. 0) c) (from_geom g u))"
      using z z0 zg by simp
    have RB: "map_of [(n, z)] n = Some (add_fn (\<lambda>c. 0) (from_geom g u))"
      using z0 zg by simp
    from loop_sim[OF sub n loopA wfA wfB RA RB, of "[]"] obtain msB' lgB' H' where
      loopB: "MapMaker_run_loop X mk [n] os [(n, z)] [] = Inr (msB', lgB')"
      and fa: "map_of maps n = Some (add_fn (\<lambda>c. real (count_list names n) * H' c) (from_geom g u))"
      and fb: "map_of msB' n = Some (add_fn H' (from_geom g u))"
      by blast
    have "MapMaker_run X mk os (SelList [n]) = Inr (msB', mk\<lparr>mk_maps := Some msB'\<rparr>, lgB')"
      by (simp add: MapMaker_run_def seln msB loopB)
    moreover have "map_of maps n
        = Some (scale_map (real (count_list names n)) (add_fn H' (from_geom g u)))"
      using fa by (simp add: scale_add_fn_zero)
    ultimately show ?thesis using fb by blast
  qed
  show "\<exists>lg. MapMaker_run X mk os (SelList []) = Inr ([], mk\<lparr>mk_maps := Some []\<rparr>, lg)
           \<and> filter (\<lambda>e. \<exists>ob. e = log_processing ob) lg = map log_processing os"
    if "\<exists>g. mk_geom_true mk = PyWcsGeom g"
  proof -
    from that obtain g where g: "mk_geom_true mk = PyWcsGeom g" by blast
    from loop_empty[OF g, of X os "[]" "[]"] obtain lg where
      "MapMaker_run_loop X mk [] os [] [] = Inr ([], lg)"
      "filter (\<lambda>e. \<exists>ob. e = log_processing ob) lg = map log_processing os"
      by auto
    then show ?thesis
      by (simp add: MapMaker_run_def check_selection_def get_empty_maps_def)
  qed
qed

theorem duplicate_and_empty_selection_witness:
  "MapMaker_run X0 mk0 [obsA, obsB] (SelList [''counts'', ''exposure'', ''counts''])
     = Inr (maps_dup, mk0\<lparr>mk_maps := Some maps_dup\<rparr>, [log_processing obsA, log_processing obsB])
   \<and> count_list [''counts'', ''exposure'', ''counts''] ''counts'' = 2
   \<and> (\<exists>maps' mk2 lg2 m.
         MapMaker_run X0 mk0 [obsA, obsB] (SelList [''counts'']) = Inr (maps', mk2, lg2)
         \<and> map_of maps' ''counts'' = Some m
         \<and> map_of maps_dup ''counts'' = Some (scale_map 2 m))
   \<and> (\<exists>lg. MapMaker_run X0 mk0 [obsA, obsC] (SelList []) = Inr ([], mk0\<lparr>mk_maps := Some []\<rparr>, lg)
         \<and> filter (\<lambda>e. \<exists>ob. e = log_processing ob) lg = map log_processing [obsA, obsC])"
proof -
  have r: "MapMaker_run X0 mk0 [obsA, obsB] (SelList [''counts'', ''exposure'', ''counts''])
     = Inr (maps_dup, mk0\<lparr>mk_maps := Some maps_dup\<rparr>, [log_processing obsA, log_processing obsB])"
    by code_simp
  have c: "count_list [''counts'', ''exposure'', ''counts''] ''counts'' = 2"
    by simp
  have n: "''counts'' \<in> set [''counts'', ''exposure'', ''counts'']" by simp
  have g: "\<exists>g. mk_geom_true mk0 = PyWcsGeom g" by (simp add: mk0_def)
  note t = duplicate_and_empty_selection[of "[''counts'', ''exposure'', ''counts'']" "''counts''"
      X0 mk0 "[obsA, obsB]"]
  from t n r have d: "\<exists>maps' mk2 lg2 m.
         MapMaker_run X0 mk0 [obsA, obsB] (SelList [''counts'']) = Inr (maps', mk2, lg2)
         \<and> map_of maps' ''counts'' = Some m
         \<and> map_of maps_dup ''counts''
             = Some (scale_map (real (count_list [''counts'', ''exposure'', ''counts''] ''counts'')) m)"
    by blast
  have d': "\<exists>maps' mk2 lg2 m.
         MapMaker_run X0 mk0 [obsA, obsB] (SelList [''counts'']) = Inr (maps', mk2, lg2)
         \<and> map_of maps' ''counts'' = Some m
         \<and> map_of maps_dup ''counts'' = Some (scale_map 2 m)"
    using d by (simp only: c) simp
  from duplicate_and_empty_selection[of "[]" "''counts''" X0 mk0 "[obsA, obsC]"] g
  have e: "\<exists>lg. MapMaker_run X0 mk0 [obsA, obsC] (SelList []) = Inr ([], mk0\<lparr>mk_maps := Some []\<rparr>, lg)
         \<and> filter (\<lambda>e. \<exists>ob. e = log_processing ob) lg = map log_processing [obsA, obsC]"
    by blast
  from r c d' e show ?thesis by (intro conjI)
qed


section \<open>The true-energy geometry is not validated\<close>

text \<open>
  Claim C10, as stated, says that the constructor raises only when the reference geometry
  fails its checks, whatever the type of \<^verbatim>\<open>geom_true\<close>. It does not: the constructor
  tests \<^verbatim>\<open>geom_true\<close> for truth, and with a valid reference geometry and a valid offset
  it raises what that test raises, as for an array of several elements.
\<close>

theorem geom_true_counterexample:
  "MapMaker_init (PyWcsGeom g0) (AngleLike 1) array_like None =
     Inl (ValueError (Text ''The truth value of an array with more than one element is ambiguous. Use a.any() or a.all()''))
   \<and> \<not> is_image g0"
  by (simp add: MapMaker_init_def is_image_def g0_def array_like_def)

text \<open>
  Claim C10, amended. The constructor never checks the type or the energy axis of
  \<^verbatim>\<open>geom_true\<close>; it only tests it for truth. It raises exactly when the reference
  geometry is not a \<^verbatim>\<open>WcsGeom\<close> or is image-only, or the truth test of \<^verbatim>\<open>geom_true\<close>
  raises, or \<^verbatim>\<open>Angle\<close> rejects the offset. With a valid reference geometry and an
  offset that \<^verbatim>\<open>Angle\<close> accepts, every \<^verbatim>\<open>geom_true\<close> whose truth test returns is
  accepted: it is stored as it is when it is true (any geometry, image-only included, and
  any true object of another type) and replaced by the reference geometry when it is
  false. When the reference geometry fails its checks, the outcome does not depend on
  \<^verbatim>\<open>geom_true\<close> or on the offset.
\<close>

theorem geom_true_unchecked:
  "((\<exists>e. MapMaker_init geom off gt ex = Inl e) \<longleftrightarrow>
      \<not> (\<exists>g. geom = PyWcsGeom g \<and> \<not> is_image g)
      \<or> (\<exists>e. truthy gt = Inl e) \<or> (\<exists>e. Angle off = Inl e))
   \<and> (\<forall>g a. geom = PyWcsGeom g \<and> \<not> is_image g \<and> Angle off = Inr a \<longrightarrow>
        (\<forall>e. truthy gt = Inl e \<longrightarrow> MapMaker_init geom off gt ex = Inl e)
      \<and> (truthy gt = Inr True \<longrightarrow>
            (\<exists>mk. MapMaker_init geom off gt ex = Inr mk \<and> mk_geom_true mk = gt))
      \<and> (truthy gt = Inr False \<longrightarrow>
            (\<exists>mk. MapMaker_init geom off gt ex = Inr mk \<and> mk_geom_true mk = geom))
      \<and> (\<forall>g'. gt = PyWcsGeom g' \<longrightarrow>
            (\<exists>mk. MapMaker_init geom off gt ex = Inr mk \<and> mk_geom_true mk = PyWcsGeom g'))
      \<and> (\<forall>b. gt = PyOther b \<longrightarrow>
            (\<exists>mk. MapMaker_init geom off gt ex = Inr mk
               \<and> mk_geom_true mk = (if b then PyOther b else geom))))
   \<and> (\<not> (\<exists>g. geom = PyWcsGeom g \<and> \<not> is_image g) \<longrightarrow>
        (\<forall>gt' off'. MapMaker_init geom off' gt' ex = MapMaker_init geom off gt ex))"
proof (intro conjI allI impI)
  show "(\<exists>e. MapMaker_init geom off gt ex = Inl e) \<longleftrightarrow>
      \<not> (\<exists>g. geom = PyWcsGeom g \<and> \<not> is_image g)
      \<or> (\<exists>e. truthy gt = Inl e) \<or> (\<exists>e. Angle off = Inl e)"
    by (cases geom; cases "truthy gt"; cases "Angle off") (auto simp: MapMaker_init_def)
next
  fix g a e
  assume "geom = PyWcsGeom g \<and> \<not> is_image g \<and> Angle off = Inr a" and "truthy gt = Inl e"
  then show "MapMaker_init geom off gt ex = Inl e"
    by (simp add: MapMaker_init_def)
next
  fix g a
  assume "geom = PyWcsGeom g \<and> \<not> is_image g \<and> Angle off = Inr a"
    and "truthy gt = Inr True"
  then show "\<exists>mk. MapMaker_init geom off gt ex = Inr mk \<and> mk_geom_true mk = gt"
    by (simp add: MapMaker_init_def)
next
  fix g a
  assume "geom = PyWcsGeom g \<and> \<not> is_image g \<and> Angle off = Inr a"
    and "truthy gt = Inr False"
  then show "\<exists>mk. MapMaker_init geom off gt ex = Inr mk \<and> mk_geom_true mk = geom"
    by (simp add: MapMaker_init_def)
next
  fix g a g'
  assume "geom = PyWcsGeom g \<and> \<not> is_image g \<and> Angle off = Inr a"
    and "gt = PyWcsGeom g'"
  then show "\<exists>mk. MapMaker_init geom off gt ex = Inr mk \<and> mk_geom_true mk = PyWcsGeom g'"
    by (simp add: MapMaker_init_def)
next
  fix g a b
  assume "geom = PyWcsGeom g \<and> \<not> is_image g \<and> Angle off = Inr a"
    and "gt = PyOther b"
  then show "\<exists>mk. MapMaker_init geom off gt ex = Inr mk
               \<and> mk_geom_true mk = (if b then PyOther b else geom)"
    by (simp add: MapMaker_init_def)
next
  fix gt' off'
  assume "\<not> (\<exists>g. geom = PyWcsGeom g \<and> \<not> is_image g)"
  then show "MapMaker_init geom off' gt' ex = MapMaker_init geom off gt ex"
    by (cases geom) (auto simp: MapMaker_init_def)
qed

theorem geom_true_unchecked_witness:
  "(\<exists>mk. MapMaker_init (PyWcsGeom g0) (AngleLike 1) (PyWcsGeom (g0\<lparr>axes := []\<rparr>)) None = Inr mk
       \<and> mk_geom_true mk = PyWcsGeom (g0\<lparr>axes := []\<rparr>))
   \<and> (\<exists>mk. MapMaker_init (PyWcsGeom g0) (AngleLike 1) (PyOther True) None = Inr mk
       \<and> mk_geom_true mk = PyOther True)
   \<and> (\<exists>mk. MapMaker_init (PyWcsGeom g0) (AngleLike 1) (PyOther False) None = Inr mk
       \<and> mk_geom_true mk = PyWcsGeom g0)
   \<and> is_image (g0\<lparr>axes := []\<rparr>)
   \<and> (\<exists>e. MapMaker_init (PyWcsGeom g0) (AngleLike 1) array_like None = Inl e)
   \<and> (\<exists>e. MapMaker_init (PyWcsGeom g0) bare_number PyNone None = Inl e)
   \<and> MapMaker_init (PyOther True) bare_number array_like None
       = MapMaker_init (PyOther True) (AngleLike 1) PyNone None"
proof -
  have h: "PyWcsGeom g0 = PyWcsGeom g0 \<and> \<not> is_image g0 \<and> Angle (AngleLike 1) = Inr 1"
    by (simp add: is_image_def g0_def)
  have i: "is_image (g0\<lparr>axes := []\<rparr>)" by (simp add: is_image_def)
  have t: "\<exists>e. truthy array_like = Inl e" by (simp add: array_like_def)
  have n: "\<exists>e. Angle bare_number = Inl e" by (simp add: bare_number_def)
  have oth: "\<not> (\<exists>g. PyOther True = PyWcsGeom g \<and> \<not> is_image g)" by simp
  from geom_true_unchecked[of "PyWcsGeom g0" "AngleLike 1" "PyWcsGeom (g0\<lparr>axes := []\<rparr>)" None] h
  have a: "\<exists>mk. MapMaker_init (PyWcsGeom g0) (AngleLike 1) (PyWcsGeom (g0\<lparr>axes := []\<rparr>)) None = Inr mk
       \<and> mk_geom_true mk = PyWcsGeom (g0\<lparr>axes := []\<rparr>)"
    by blast
  from geom_true_unchecked[of "PyWcsGeom g0" "AngleLike 1" "PyOther True" None] h
  have b: "\<exists>mk. MapMaker_init (PyWcsGeom g0) (AngleLike 1) (PyOther True) None = Inr mk
       \<and> mk_geom_true mk = PyOther True"
    by simp
  from geom_true_unchecked[of "PyWcsGeom g0" "AngleLike 1" "PyOther False" None] h
  have c: "\<exists>mk. MapMaker_init (PyWcsGeom g0) (AngleLike 1) (PyOther False) None = Inr mk
       \<and> mk_geom_true mk = PyWcsGeom g0"
    by simp
  from geom_true_unchecked[of "PyWcsGeom g0" "AngleLike 1" array_like None] t
  have d: "\<exists>e. MapMaker_init (PyWcsGeom g0) (AngleLike 1) array_like None = Inl e"
    by blast
  from geom_true_unchecked[of "PyWcsGeom g0" bare_number PyNone None] n
  have e: "\<exists>e. MapMaker_init (PyWcsGeom g0) bare_number PyNone None = Inl e"
    by blast
  from geom_true_unchecked[of "PyOther True" "AngleLike 1" PyNone None] oth
  have f: "MapMaker_init (PyOther True) bare_number array_like None
       = MapMaker_init (PyOther True) (AngleLike 1) PyNone None"
    by blast
  from a b c i d e f show ?thesis by simp
qed
end
